theory Spec2Isabelle
  imports Complex_Main
begin

section \<open>Python values\<close>

text \<open>
  The program is Python 2. A number stored in a parameter-set is an \<open>int\<close> or a
  \<open>float\<close>, and the arithmetic operators choose their meaning from the operands:
  \<open>/\<close> on two ints is floor division, and any operation with a float operand is a
  float operation. Floats are modelled as real numbers: rounding, overflow and NaN are
  not part of the model. Where a result of the code depends on the rounding, the range
  on which the real numbers give the value of the doubles is proved and stated with
  the property.
\<close>

datatype pynum = PInt int | PFloat real

fun to_real :: "pynum \<Rightarrow> real" where
  "to_real (PInt i) = of_int i"
| "to_real (PFloat r) = r"

instantiation pynum :: "{plus, minus, times, divide}"
begin

fun plus_pynum :: "pynum \<Rightarrow> pynum \<Rightarrow> pynum" where
  "plus_pynum (PInt x) (PInt y) = PInt (x + y)"
| "plus_pynum x y = PFloat (to_real x + to_real y)"

fun minus_pynum :: "pynum \<Rightarrow> pynum \<Rightarrow> pynum" where
  "minus_pynum (PInt x) (PInt y) = PInt (x - y)"
| "minus_pynum x y = PFloat (to_real x - to_real y)"

fun times_pynum :: "pynum \<Rightarrow> pynum \<Rightarrow> pynum" where
  "times_pynum (PInt x) (PInt y) = PInt (x * y)"
| "times_pynum x y = PFloat (to_real x * to_real y)"

text \<open>Every division of the modelled code has the literal divisor 2 or 3.\<close>

fun divide_pynum :: "pynum \<Rightarrow> pynum \<Rightarrow> pynum" where
  "divide_pynum (PInt x) (PInt y) = PInt (x div y)"
| "divide_pynum x y = PFloat (to_real x / to_real y)"

instance ..

end

text \<open>\<open>int(x)\<close> on a float truncates towards zero.\<close>

definition float_to_int :: "real \<Rightarrow> int" where
  "float_to_int r = (if 0 \<le> r then \<lfloor>r\<rfloor> else \<lceil>r\<rceil>)"

fun py_int :: "pynum \<Rightarrow> int" where
  "py_int (PInt i) = i"
| "py_int (PFloat r) = float_to_int r"

text \<open>
  A Python float is an IEEE double: an integer significand below \<open>2 ^ 53\<close> in magnitude,
  scaled by a power of two. The exponent range is left open, which makes no difference
  to the numbers met below. A float literal and a float product are a double nearest to
  the exact value. The literals \<open>0.167\<close> and \<open>0.333\<close> denote the two doubles defined here.
\<close>

definition is_double :: "real \<Rightarrow> bool" where
  "is_double y = (\<exists>m e :: int. \<bar>m\<bar> < 2 ^ 53 \<and> y = of_int m * 2 powr of_int e)"

definition nearest_double :: "real \<Rightarrow> real \<Rightarrow> bool" where
  "nearest_double x y = (is_double y \<and> (\<forall>z. is_double z \<longrightarrow> \<bar>x - y\<bar> \<le> \<bar>x - z\<bar>))"

definition double_0_167 :: real where
  "double_0_167 = 6016809102166983 / 2 ^ 55"

definition double_0_333 :: real where
  "double_0_333 = 5998794703657501 / 2 ^ 54"

text \<open>\<open>max(x, y)\<close> keeps its first argument unless the second is strictly greater.\<close>

definition py_max :: "pynum \<Rightarrow> pynum \<Rightarrow> pynum" where
  "py_max x y = (if to_real x < to_real y then y else x)"

text \<open>
  \<open>xs[:k]\<close>: a negative bound counts from the end.
\<close>

definition py_take :: "int \<Rightarrow> 'a list \<Rightarrow> 'a list" where
  "py_take k xs = (if 0 \<le> k then take (nat k) xs else take (nat (int (length xs) + k)) xs)"

text \<open>
  Exceptions. \<open>InvalidCharacter w s\<close> is the \<open>ValueError\<close> that \<open>_extractSentence\<close>
  raises with the message \<open>Invalid character in word w, sentence s.\<close>; \<open>ValueError\<close> is
  the one raised by unpacking a sequence of the wrong length. \<open>NonTermination\<close> is not
  an exception: it stands for a call that never returns.
\<close>

datatype error =
    IndexError
  | KeyError
  | ZeroDivisionError
  | ValueError
  | InvalidCharacter nat nat
  | NonTermination

text \<open>A parameter-set: 32 acoustic fields and the duration in milliseconds.\<close>

type_synonym frame = "pynum list"

section \<open>parwave: resonators\<close>

definition FREQUENCY :: int where
  "FREQUENCY = 10"

definition F0_HZ :: int where
  "F0_HZ = 80"

record resonator =
  res_a :: real
  res_b :: real
  res_c :: real
  delay_1 :: real
  delay_2 :: real

definition Resonator_init :: "real \<Rightarrow> real \<Rightarrow> real \<Rightarrow> resonator" where
  "Resonator_init a b c =
     \<lparr>res_a = a, res_b = b, res_c = c, delay_1 = 0, delay_2 = 0\<rparr>"

text \<open>\<open>_Resonator._resonate\<close>: the value, and the resonator with its older delay shifted.\<close>

definition Resonator_resonate_inner :: "resonator \<Rightarrow> real \<Rightarrow> real \<times> resonator" where
  "Resonator_resonate_inner r input =
     (res_a r * input + res_b r * delay_1 r + res_c r * delay_2 r,
      r\<lparr>delay_2 := delay_1 r\<rparr>)"

definition Resonator_resonate :: "resonator \<Rightarrow> real \<Rightarrow> real \<times> resonator" where
  "Resonator_resonate r input =
     (let (output, r') = Resonator_resonate_inner r input
      in (output, r'\<lparr>delay_1 := output\<rparr>))"

definition AntiResonator_init :: "real \<Rightarrow> real \<Rightarrow> real \<Rightarrow> error + resonator" where
  "AntiResonator_init a b c =
     (if a = 0 then Inl ZeroDivisionError
      else let a' = 1 / a in Inr (Resonator_init a' (- b * a') (- c * a')))"

definition AntiResonator_resonate :: "resonator \<Rightarrow> real \<Rightarrow> real \<times> resonator" where
  "AntiResonator_resonate r input =
     (let (output, r') = Resonator_resonate_inner r input
      in (output, r'\<lparr>delay_1 := input\<rparr>))"

section \<open>parwave: the synthesizer\<close>

text \<open>
  The state of a \<open>Synthesizer\<close> that outlives a call is the noise accumulator; every
  resonator is initialised again by \<open>_initResonators\<close> at the start of \<open>synthesize\<close>
  before it is read, so the resonators are local to a call in the model.
  \<open>random.uniform(-0.00001, 0.00001)\<close> is an input of the program: \<open>random_uniform s k\<close>
  is the value of its \<open>k\<close>-th call and \<open>drawn s\<close> counts the calls made so far.
\<close>

record synthesizer =
  noise :: real
  random_uniform :: "nat \<Rightarrow> real"
  drawn :: nat

definition generateSilence :: "synthesizer \<Rightarrow> int \<Rightarrow> int list \<times> synthesizer" where
  "generateSilence s milliseconds =
     (replicate (nat (milliseconds * FREQUENCY)) 0, s\<lparr>noise := 0\<rparr>)"

definition getNoise :: "synthesizer \<Rightarrow> real \<times> synthesizer" where
  "getNoise s =
     (let n = random_uniform s (drawn s) + noise s
      in (n, s\<lparr>noise := n, drawn := Suc (drawn s)\<rparr>))"

record bank =
  cascade_resonators :: "resonator list"
  parallel_resonators :: "resonator list"
  glottal_antiresonator :: resonator
  glottal_pole_resonator :: resonator
  glottal_sine_resonator :: resonator
  nasal_antiresonator :: resonator
  nasal_pole_resonator :: resonator

text \<open>
  \<open>_initResonators\<close>. The three coefficient lists are unpacked into eleven names each,
  which raises \<open>ValueError\<close> unless they have eleven elements. \<open>math.e ** x\<close> is
  \<open>exp x\<close>.
\<close>

definition initResonators :: "real list \<Rightarrow> real list \<Rightarrow> error + bank" where
  "initResonators frequencies bandwidths =
     (let pi_neg_div = pi * - 0.0001;
          pi_2_div = 2.0 * pi * 0.0001;
          pi_neg_2_div = - pi_2_div;
          b = map (\<lambda>(n, m). n * m)
                (zip (map (\<lambda>f. cos (pi_2_div * f)) frequencies)
                     (map (\<lambda>bw. 2 * exp (pi_neg_div * bw)) bandwidths));
          c = map (\<lambda>bw. - exp (pi_neg_2_div * bw)) bandwidths;
          a = map (\<lambda>(b_v, c_v). 1 - b_v - c_v) (zip b c)
      in if length b \<noteq> 11 \<or> length c \<noteq> 11 then Inl ValueError
         else
           let formants = map (\<lambda>(a_n, b_n, c_n). Resonator_init a_n b_n c_n)
                            (zip (drop 6 a) (zip (drop 6 b) (drop 6 c)))
           in case AntiResonator_init (a ! 1) (b ! 1) (c ! 1) of
                Inl e \<Rightarrow> Inl e
              | Inr gz \<Rightarrow>
                  (case AntiResonator_init (a ! 4) (b ! 4) (c ! 4) of
                     Inl e \<Rightarrow> Inl e
                   | Inr nz \<Rightarrow>
                       Inr \<lparr>cascade_resonators =
                              Resonator_init (a ! 5) (b ! 5) (c ! 5) # formants,
                            parallel_resonators = formants,
                            glottal_antiresonator = gz,
                            glottal_pole_resonator =
                              Resonator_init (a ! 0) (b ! 0) (c ! 0),
                            glottal_sine_resonator =
                              Resonator_init (a ! 2) (b ! 2) (c ! 2),
                            nasal_antiresonator = nz,
                            nasal_pole_resonator =
                              Resonator_init (a ! 3) (b ! 3) (c ! 3)\<rparr>))"

text \<open>
  The loop of \<open>synthesize\<close>. \<open>resonator_collection\<close> pairs the cascade resonators of
  formants 2 to 6 with the parallel resonators and the amplitudes, in reverse order; its
  elements are the resonator objects themselves, so the model reads them from the bank
  at each tick and stores them back.
\<close>

fun formant_loop ::
  "(resonator \<times> resonator \<times> real) list \<Rightarrow> real \<Rightarrow> real \<Rightarrow> real
     \<Rightarrow> (resonator \<times> resonator \<times> real) list \<times> real \<times> real" where
  "formant_loop [] frication source result = ([], source, result)"
| "formant_loop ((cascade_resonator, parallel_resonator, amplitude) # rest)
       frication source result =
     (let (source', c_r) = Resonator_resonate cascade_resonator source;
          (v, p_r) = Resonator_resonate parallel_resonator (frication * amplitude);
          (rest', source'', result') = formant_loop rest frication source' (result + v)
      in ((c_r, p_r, amplitude) # rest', source'', result'))"

record loop_state =
  resonators :: bank
  last_result :: real
  period_index :: int
  sounds :: "int list"
  synth :: synthesizer

text \<open>
  The part of an iteration between \<open>#Compute cascade value\<close> and the last update of
  \<open>result\<close>: from the pulse and the noise value of this tick to the value of \<open>result\<close>, through
  every resonator. \<open>p\<close> is the parameter-set, its numbers used as floats.
\<close>

definition cascade_value :: "real list \<Rightarrow> real \<Rightarrow> real \<Rightarrow> bank \<Rightarrow> real \<times> bank" where
  "cascade_value p pulse noise_value bk =
     (let amplitudes = take 5 (drop 22 p);
          ab = p ! 27; ah = p ! 28; af = p ! 29; av = p ! 30; avs = p ! 31;
          (source0, gp) = Resonator_resonate (glottal_pole_resonator bk) pulse;
          (vz, gz) = AntiResonator_resonate (glottal_antiresonator bk) source0;
          (vs, gs) = Resonator_resonate (glottal_sine_resonator bk) source0;
          source1 = vz * av + vs * avs;
          source2 = source1 + noise_value * ah;
          (source3, np) = Resonator_resonate (nasal_pole_resonator bk) source2;
          (source4, nz) = AntiResonator_resonate (nasal_antiresonator bk) source3;
          frication = noise_value * af;
          result0 = frication * ab;
          (collection, source5, result1) =
            formant_loop
              (rev (zip (tl (cascade_resonators bk)) (zip (parallel_resonators bk) amplitudes)))
              frication source4 result0;
          (v1, c1) = Resonator_resonate (hd (cascade_resonators bk)) source5
      in (result1 + v1,
          \<lparr>cascade_resonators = c1 # map fst (rev collection),
           parallel_resonators = map (\<lambda>(c_r, p_r, amplitude). p_r) (rev collection),
           glottal_antiresonator = gz,
           glottal_pole_resonator = gp,
           glottal_sine_resonator = gs,
           nasal_antiresonator = nz,
           nasal_pole_resonator = np\<rparr>))"

text \<open>
  One iteration, for the tick \<open>t\<close>. The second component tells whether the iteration
  ends in \<open>break\<close>.
\<close>

definition tick :: "int \<Rightarrow> bool \<Rightarrow> real list \<Rightarrow> int \<Rightarrow> loop_state \<Rightarrow> loop_state \<times> bool" where
  "tick f0_hz turbo p t s =
     (let (noise_value, sy) = getNoise (synth s);
          (pulse, period_index') =
            (if period_index s = f0_hz then (1, 0) else (0, period_index s + 1));
          (result, bk) = cascade_value p pulse noise_value (resonators s);
          output = result - last_result s;
          s' = s\<lparr>resonators := bk, last_result := result,
                 period_index := period_index', synth := sy\<rparr>
      in if f0_hz \<le> t then
           let output1 = float_to_int (output * 32767);
               output2 = (if 32767 < output1 then 32767
                          else if output1 < - 32768 then - 32768 else output1)
           in (s'\<lparr>sounds := sounds s' @ [output2]\<rparr>, turbo \<and> t = f0_hz * 2 - 1)
         else (s', False))"

text \<open>
  \<open>for t in xrange(samples_target + f0_hz)\<close>: \<open>n\<close> iterations are left and the next
  one is for the tick \<open>t\<close>. The result is the state with which the loop is left, and
  whether it was left by \<open>break\<close>.
\<close>

primrec synth_loop ::
  "int \<Rightarrow> bool \<Rightarrow> real list \<Rightarrow> nat \<Rightarrow> int \<Rightarrow> loop_state \<Rightarrow> loop_state \<times> bool" where
  "synth_loop f0_hz turbo p 0 t s = (s, False)"
| "synth_loop f0_hz turbo p (Suc n) t s =
     (let (s', broke) = tick f0_hz turbo p t s
      in if broke then (s', True) else synth_loop f0_hz turbo p n (t + 1) s')"

text \<open>
  Turbo mode: \<open>while len(sounds) * 2 < samples_target: sounds *= 2\<close>, which does not
  return on an empty list with a positive target, and then
  \<open>sounds += sounds[:samples_target - len(sounds)]\<close>.
\<close>

partial_function (option) tile_while :: "'a list \<Rightarrow> int \<Rightarrow> 'a list option" where
  "tile_while snds samples_target =
     (if int (length snds) * 2 < samples_target
      then tile_while (snds @ snds) samples_target
      else Some snds)"

definition turbo_tile :: "'a list \<Rightarrow> int \<Rightarrow> 'a list option" where
  "turbo_tile snds samples_target =
     (case tile_while snds samples_target of
        None \<Rightarrow> None
      | Some doubled \<Rightarrow>
          Some (doubled @ py_take (samples_target - int (length doubled)) doubled))"

text \<open>
  \<open>Synthesizer.synthesize\<close>. Its locals \<open>f0_hz\<close> and \<open>samples_target\<close> are functions
  of the arguments. The turbo statements stand immediately before \<open>break\<close>, so they run
  once, on the buffer with which the loop is left: the model applies them to the result
  of the loop when it was left by \<open>break\<close>.
\<close>

definition f0_hz_of :: "real \<Rightarrow> int" where
  "f0_hz_of f0_multiplier = float_to_int (of_int F0_HZ * f0_multiplier)"

definition samples_target_of :: "frame \<Rightarrow> int" where
  "samples_target_of parameters = py_int (parameters ! 32 * PInt FREQUENCY)"

definition initial_state :: "bank \<Rightarrow> int \<Rightarrow> synthesizer \<Rightarrow> loop_state" where
  "initial_state bk f0_hz sy =
     \<lparr>resonators = bk, last_result = 0, period_index = f0_hz, sounds = [], synth = sy\<rparr>"

definition synthesize ::
  "synthesizer \<Rightarrow> frame \<Rightarrow> real \<Rightarrow> bool \<Rightarrow> error + (int list \<times> synthesizer)" where
  "synthesize sy parameters f0_multiplier turbo =
     (let f0_hz = f0_hz_of f0_multiplier
      in if length parameters \<noteq> 33 then Inl ValueError
         else
           let p = map to_real parameters
           in case initResonators (take 11 p) (take 11 (drop 11 p)) of
                Inl e \<Rightarrow> Inl e
              | Inr bk \<Rightarrow>
                  let samples_target = samples_target_of parameters;
                      (s, broke) =
                        synth_loop f0_hz turbo p (nat (samples_target + f0_hz)) 0
                          (initial_state bk f0_hz sy)
                  in if broke
                     then (case turbo_tile (sounds s) samples_target of
                             None \<Rightarrow> Inl NonTermination
                           | Some out \<Rightarrow> Inr (out, synth s))
                     else Inr (sounds s, synth s))"

section \<open>ipa: the phoneme data\<close>

text \<open>
  Unicode text is a list of code points. A phoneme is a unicode string, usually of one
  character. The module \<open>ipa\<close> is not part of the sources: its tables and its function
  \<open>reduceIPAClusters\<close> are parameters of the model. \<open>regions\<close>, the second component of
  an entry of \<open>IPA_DATA\<close>, is never read and is left out.
\<close>

type_synonym ustring = "nat list"

record ipa =
  IPA_PARAMETERS :: "ustring \<rightharpoonup> frame"
  IPA_DATA :: "ustring \<rightharpoonup> frame"
  VOWELS :: "ustring set"
  NASALS :: "ustring set"
  STOPS :: "ustring set"
  LIQUIDS :: "ustring set"
  reduceIPAClusters :: "ustring \<Rightarrow> ustring list"

definition u_h :: ustring where
  "u_h = [of_char CHR ''h'']"

definition u_glottal_stop :: ustring where
  "u_glottal_stop = [0x0294]"

section \<open>universal-rules\<close>

text \<open>
  Every function works on its own copy of \<open>parameters_list\<close> and returns it. Reading a
  missing key, the first element of an empty list or the field 32 of a short
  parameter-set raises.
\<close>

text \<open>
  The three durations of \<open>nasalizeVowel\<close> are products of the duration with a float
  literal, taken here over the reals. For a duration from 0 to 3000000 the double
  products of the code truncate to the same integers (\<open>nasal_durations_double\<close>); far
  beyond that range they need not.
\<close>

definition nasalizeVowel :: "ipa \<Rightarrow> ustring \<Rightarrow> ustring list \<Rightarrow> frame list \<Rightarrow> error + frame list" where
  "nasalizeVowel tbl ipa_character following_phonemes parameters_list =
     (if following_phonemes = [] \<or> hd following_phonemes \<notin> NASALS tbl then Inr parameters_list
      else if ipa_character \<notin> VOWELS tbl \<or> ipa_character \<in> NASALS tbl then Inr parameters_list
      else
        case parameters_list of
          [] \<Rightarrow> Inl IndexError
        | vowel # rest \<Rightarrow>
            if length vowel \<le> 32 then Inl IndexError
            else
              let vowel_duration = vowel ! 32;
                  vowel_values = take 32 vowel
              in case IPA_PARAMETERS tbl (hd following_phonemes) of
                   None \<Rightarrow> Inl KeyError
                 | Some nasal \<Rightarrow>
                     let values = zip vowel_values (take 32 nasal)
                     in Inr ((vowel_values @ [PInt (py_int (vowel_duration * PFloat 0.5))]) #
                             (map (\<lambda>(v, n). (v * PInt 2 + n) div PInt 3) values
                                @ [PInt (py_int (vowel_duration * PFloat 0.167))]) #
                             (map (\<lambda>(v, n). (v + n * PInt 2) div PInt 3) values
                                @ [PInt (py_int (vowel_duration * PFloat 0.333))]) #
                             rest))"

text \<open>
  \<open>bridgeWords\<close>. \<open>previous_words[-1][-1]\<close> is the last character of the last previous
  word, a string of one character, so \<open>character[:32]\<close> is \<open>character\<close>.
\<close>

definition bridgeWords ::
  "ipa \<Rightarrow> ustring \<Rightarrow> ustring list \<Rightarrow> ustring list \<Rightarrow> ustring list \<Rightarrow> frame list
     \<Rightarrow> error + frame list" where
  "bridgeWords tbl ipa_character preceding_phonemes following_phonemes previous_words parameters_list =
     (if ipa_character \<notin> VOWELS tbl then Inr parameters_list
      else if preceding_phonemes = [] \<and> previous_words \<noteq> [] then
        (if last previous_words = [] then Inl IndexError
         else
           let character = [last (last previous_words)]
           in if character \<in> VOWELS tbl then
                (case IPA_PARAMETERS tbl u_h of
                   None \<Rightarrow> Inl KeyError
                 | Some h \<Rightarrow> Inr (parameters_list @ [take 32 h @ [PInt 50]]))
              else
                (case parameters_list of
                   [] \<Rightarrow> Inl IndexError
                 | first # rest \<Rightarrow>
                     (case IPA_PARAMETERS tbl (py_take 32 character) of
                        None \<Rightarrow> Inl KeyError
                      | Some consonant \<Rightarrow>
                          let values = zip (take 32 first) consonant
                          in Inr ((map (\<lambda>(v, c). (c + v) div PInt 2) values @ [PInt 50]) #
                                  parameters_list))))
      else Inr parameters_list)"

text \<open>
  \<open>shapeContours\<close>: the body of \<open>if preceding_phonemes\<close>, the body of the second \<open>if\<close>,
  and the function.
\<close>

definition shape_lead_in :: "ipa \<Rightarrow> ustring \<Rightarrow> ustring list \<Rightarrow> frame list \<Rightarrow> error + frame list" where
  "shape_lead_in tbl ipa_character preceding_phonemes parameters_list =
     (case parameters_list of
        [] \<Rightarrow> Inl IndexError
      | lead_in_sound # rest \<Rightarrow>
          if length lead_in_sound \<le> 32 then Inl IndexError
          else
            let lead_in_values = take 32 lead_in_sound;
                shortened = lead_in_values @ [py_max (PInt 5) (lead_in_sound ! 32 - PInt 15)]
            in if ipa_character \<notin> STOPS tbl then
                 (case IPA_PARAMETERS tbl (last preceding_phonemes) of
                    None \<Rightarrow> Inl KeyError
                  | Some p_values \<Rightarrow>
                      Inr ((map (\<lambda>(c, p). (c * PInt 2 + p) div PInt 3)
                              (zip lead_in_values (take 32 p_values)) @ [PInt 15]) #
                           shortened # rest))
               else
                 (case IPA_PARAMETERS tbl u_glottal_stop of
                    None \<Rightarrow> Inl KeyError
                  | Some g_values \<Rightarrow> Inr ((take 32 g_values @ [PInt 15]) # shortened # rest)))"

definition shape_lead_out :: "ipa \<Rightarrow> ustring list \<Rightarrow> frame list \<Rightarrow> error + frame list" where
  "shape_lead_out tbl following_phonemes parameters_list =
     (if parameters_list = [] then Inl IndexError
      else
        let lead_out_sound = last parameters_list
        in if length lead_out_sound \<le> 32 then Inl IndexError
           else
             let lead_out_values = take 32 lead_out_sound;
                 shortened = lead_out_values @ [py_max (PInt 5) (lead_out_sound ! 32 - PInt 15)]
             in if hd following_phonemes \<notin> STOPS tbl then
                  (case IPA_PARAMETERS tbl (hd following_phonemes) of
                     None \<Rightarrow> Inl KeyError
                   | Some p_values \<Rightarrow>
                       Inr (butlast parameters_list @
                            [shortened,
                             map (\<lambda>(c, p). (c * PInt 2 + p) div PInt 3)
                               (zip lead_out_values (take 32 p_values)) @ [PInt 15]]))
                else
                  (case IPA_PARAMETERS tbl u_h of
                     None \<Rightarrow> Inl KeyError
                   | Some h \<Rightarrow>
                       Inr (butlast parameters_list @ [shortened, take 32 h @ [PInt 15]])))"

definition shapeContours ::
  "ipa \<Rightarrow> ustring \<Rightarrow> ustring list \<Rightarrow> ustring list \<Rightarrow> frame list \<Rightarrow> error + frame list" where
  "shapeContours tbl ipa_character preceding_phonemes following_phonemes parameters_list =
     (case (if preceding_phonemes \<noteq> [] then shape_lead_in tbl ipa_character preceding_phonemes parameters_list
            else Inr parameters_list) of
        Inl e \<Rightarrow> Inl e
      | Inr shaped \<Rightarrow>
          if following_phonemes \<noteq> [] \<and> \<not> (ipa_character \<in> VOWELS tbl \<and> hd following_phonemes \<in> NASALS tbl)
          then shape_lead_out tbl following_phonemes shaped
          else Inr shaped)"

section \<open>language-rules\<close>

text \<open>
  The context that \<open>applyRules\<close> hands to every rule function unchanged: its own first
  fourteen arguments.
\<close>

record rule_context =
  ctx_ipa_character :: ustring
  ctx_preceding_phonemes :: "ustring list"
  ctx_following_phonemes :: "ustring list"
  ctx_word_position :: int
  ctx_remaining_words :: int
  ctx_previous_words :: "ustring list"
  ctx_following_words :: "ustring list"
  ctx_sentence_position :: int
  ctx_remaining_sentences :: int
  ctx_is_quoted :: bool
  ctx_is_emphasized :: bool
  ctx_is_content :: bool
  ctx_is_question :: bool
  ctx_is_exclamation :: bool

text \<open>
  A rule function takes the context, the parameter-sets already transformed for this
  phoneme, the number of parameter-sets still to process, the parameter-sets that the
  rules before it have put before and after the current one, and the current
  parameter-set. It returns parameter-sets to put before and after, an f0 multiplier, and
  the current parameter-set as it has modified it; or it raises. The ruleset
  \<open>language.RULE_FUNCTIONS\<close> is a parameter of the model (the module \<open>languages.null\<close>
  has the empty one).
\<close>

type_synonym rule_function =
  "rule_context \<Rightarrow> frame list \<Rightarrow> int \<Rightarrow> frame list \<Rightarrow> frame list \<Rightarrow> frame
     \<Rightarrow> error + (frame list \<times> frame list \<times> real \<times> frame)"

text \<open>
  \<open>for function in rule_functions\<close>, on the state
  \<open>(preceding_parameters, following_parameters, f0_multiplier, parameters)\<close>.
\<close>

fun apply_rule_functions ::
  "rule_function list \<Rightarrow> rule_context \<Rightarrow> frame list \<Rightarrow> int
     \<Rightarrow> frame list \<times> frame list \<times> real \<times> frame
     \<Rightarrow> error + (frame list \<times> frame list \<times> real \<times> frame)" where
  "apply_rule_functions [] ctx transformed_parameters remaining st = Inr st"
| "apply_rule_functions (function # functions) ctx transformed_parameters remaining
       (preceding_parameters, following_parameters, f0_multiplier, parameters) =
     (case function ctx transformed_parameters remaining preceding_parameters
             following_parameters parameters of
        Inl e \<Rightarrow> Inl e
      | Inr (preceding_params, following_params, multiplier, parameters') \<Rightarrow>
          apply_rule_functions functions ctx transformed_parameters remaining
            (preceding_parameters @ preceding_params,
             following_params @ following_parameters,
             f0_multiplier * multiplier,
             parameters'))"

text \<open>\<open>for (i, parameters) in enumerate(parameters_list)\<close>.\<close>

fun applyRules_loop ::
  "rule_function list \<Rightarrow> rule_context \<Rightarrow> int \<Rightarrow> int \<Rightarrow> frame list
     \<Rightarrow> frame list \<times> real list \<Rightarrow> error + (frame list \<times> real list)" where
  "applyRules_loop rule_functions ctx initial_parameter_count_zero i []
       (transformed_parameters, f0_multipliers) =
     Inr (transformed_parameters, f0_multipliers)"
| "applyRules_loop rule_functions ctx initial_parameter_count_zero i (parameters # rest)
       (transformed_parameters, f0_multipliers) =
     (case apply_rule_functions rule_functions ctx transformed_parameters
             (initial_parameter_count_zero - i) ([], [], 1, parameters) of
        Inl e \<Rightarrow> Inl e
      | Inr (preceding_parameters, following_parameters, f0_multiplier, parameters') \<Rightarrow>
          applyRules_loop rule_functions ctx initial_parameter_count_zero (i + 1) rest
            (transformed_parameters @ preceding_parameters @ [parameters'] @ following_parameters,
             f0_multipliers @
               replicate (length preceding_parameters + 1 + length following_parameters)
                 f0_multiplier))"

definition applyRules ::
  "rule_function list \<Rightarrow> rule_context \<Rightarrow> frame list \<Rightarrow> error + (frame list \<times> real list)" where
  "applyRules rule_functions ctx parameters_list =
     applyRules_loop rule_functions ctx (int (length parameters_list) - 1) 0 parameters_list
       ([], [])"

section \<open>transform: the parser\<close>

definition c_star :: nat where "c_star = 0x2A"
definition c_quote :: nat where "c_quote = 0x22"
definition c_apostrophe :: nat where "c_apostrophe = 0x27"
definition c_comma :: nat where "c_comma = 0x2C"
definition c_period :: nat where "c_period = 0x2E"
definition c_question :: nat where "c_question = 0x3F"
definition c_exclamation :: nat where "c_exclamation = 0x21"
definition c_minus :: nat where "c_minus = 0x2D"
definition c_plus :: nat where "c_plus = 0x2B"
definition c_less :: nat where "c_less = 0x3C"
definition c_greater :: nat where "c_greater = 0x3E"

text \<open>
  \<open>_WORD_REGEXP\<close> is
  \<^verbatim>\<open>^((?:[*]|"|[*]"|"[*])?'?)([I][-+<>I]*[,]?)((?:[*]|"|[*]"|"[*])?(?:[.]|[?]|!|[?]!|![?])?)$\<close>
  where \<open>I\<close> stands for the characters that are keys of \<open>IPA_PARAMETERS\<close> (taken to be
  letters, with no meaning inside a character class). Each part of the expression is
  modelled by the list of the ways in which it can match a prefix of the text, as pairs
  of the matched prefix and the rest, in the order in which the backtracking matcher of
  \<open>re\<close> tries them; the match is the first way in which all parts match in sequence up
  to the end of the text, where \<open>$\<close> also accepts a final newline.
\<close>

definition opt_alternatives :: "ustring list \<Rightarrow> ustring \<Rightarrow> (ustring \<times> ustring) list" where
  "opt_alternatives alts s =
     [(m, drop (length m) s). m \<leftarrow> alts, take (length m) s = m] @ [([], s)]"

definition opt_marker :: "ustring \<Rightarrow> (ustring \<times> ustring) list" where
  "opt_marker = opt_alternatives [[c_star], [c_quote], [c_star, c_quote], [c_quote, c_star]]"

definition opt_terminal :: "ustring \<Rightarrow> (ustring \<times> ustring) list" where
  "opt_terminal =
     opt_alternatives [[c_period], [c_question], [c_exclamation],
                       [c_question, c_exclamation], [c_exclamation, c_question]]"

definition ipa_char :: "ipa \<Rightarrow> nat \<Rightarrow> bool" where
  "ipa_char tbl c = (IPA_PARAMETERS tbl [c] \<noteq> None)"

definition ext_char :: "ipa \<Rightarrow> nat \<Rightarrow> bool" where
  "ext_char tbl c = (c \<in> {c_minus, c_plus, c_less, c_greater} \<or> ipa_char tbl c)"

definition cluster :: "ipa \<Rightarrow> ustring \<Rightarrow> (ustring \<times> ustring) list" where
  "cluster tbl s =
     (case s of
        [] \<Rightarrow> []
      | c # rest \<Rightarrow>
          if ipa_char tbl c
          then map (\<lambda>k. (c # take k rest, drop k rest))
                 (rev [0..<Suc (length (takeWhile (ext_char tbl) rest))])
          else [])"

definition WORD_REGEXP_match :: "ipa \<Rightarrow> ustring \<Rightarrow> (ustring \<times> ustring \<times> ustring) option" where
  "WORD_REGEXP_match tbl token =
     (case [(m1 @ a, cl @ k, m3 @ t).
              (m1, s1) \<leftarrow> opt_marker token,
              (a, s2) \<leftarrow> opt_alternatives [[c_apostrophe]] s1,
              (cl, s3) \<leftarrow> cluster tbl s2,
              (k, s4) \<leftarrow> opt_alternatives [[c_comma]] s3,
              (m3, s5) \<leftarrow> opt_marker s4,
              (t, s6) \<leftarrow> opt_terminal s5,
              s6 = [] \<or> s6 = [0x0A]] of
        [] \<Rightarrow> None
      | groups # others \<Rightarrow> Some groups)"

text \<open>\<open>_FILTER_REGEXP.sub("", w)\<close> removes every markup character.\<close>

definition FILTER_REGEXP_sub :: "ustring \<Rightarrow> ustring" where
  "FILTER_REGEXP_sub w =
     filter (\<lambda>c. c \<notin> {c_star, c_quote, c_apostrophe, c_minus, c_plus, c_less, c_greater,
                       c_comma, c_period, c_question, c_exclamation}) w"

datatype sentence_markup = SENTENCE_QUESTION | SENTENCE_EXCLAMATION

datatype word_markup = WORD_QUOTED | WORD_EMPHASIZED | WORD_CONTENT

type_synonym word = "ustring \<times> word_markup list"

type_synonym sentence = "word list \<times> sentence_markup list"

text \<open>
  The loop of \<open>_extractSentence\<close>, on the tokens left and the locals \<open>words\<close>,
  \<open>quotation\<close> and \<open>emphasis\<close>; \<open>markup\<close> is written only when the loop is left.
\<close>

fun extractSentence_loop ::
  "ipa \<Rightarrow> nat \<Rightarrow> ustring list \<Rightarrow> word list \<Rightarrow> bool \<Rightarrow> bool
     \<Rightarrow> error + (sentence \<times> ustring list)" where
  "extractSentence_loop tbl sentence_number [] words quotation emphasis =
     Inr ((words, []), [])"
| "extractSentence_loop tbl sentence_number (token # tokens) words quotation emphasis =
     (case WORD_REGEXP_match tbl token of
        None \<Rightarrow> Inl (InvalidCharacter (length words + 1) sentence_number)
      | Some (group1, group2, group3) \<Rightarrow>
          let quotation1 = (quotation \<or> c_quote \<in> set group1);
              emphasis1 = (emphasis \<or> c_star \<in> set group1);
              word_markup =
                (if quotation1 then [WORD_QUOTED] else []) @
                (if emphasis1 then [WORD_EMPHASIZED] else []) @
                (if c_apostrophe \<in> set group1 then [WORD_CONTENT] else []);
              words1 = words @ [(group2, word_markup)];
              quotation2 = (quotation1 \<and> c_quote \<notin> set group3);
              emphasis2 = (emphasis1 \<and> c_star \<notin> set group3)
          in if c_period \<in> set group3 then Inr ((words1, []), tokens)
             else if c_question \<in> set group3 then
               Inr ((words1,
                     SENTENCE_QUESTION #
                       (if c_exclamation \<in> set group3 then [SENTENCE_EXCLAMATION] else [])),
                    tokens)
             else if c_exclamation \<in> set group3 then
               Inr ((words1,
                     (if c_question \<in> set group3 then [SENTENCE_QUESTION] else []) @
                       [SENTENCE_EXCLAMATION]),
                    tokens)
             else extractSentence_loop tbl sentence_number tokens words1 quotation2 emphasis2)"

definition extractSentence :: "ipa \<Rightarrow> ustring list \<Rightarrow> nat \<Rightarrow> error + (sentence \<times> ustring list)" where
  "extractSentence tbl tokens sentence_number =
     extractSentence_loop tbl sentence_number tokens [] False False"

text \<open>
  \<open>while tokens\<close> in \<open>paragraphToSound\<close>. Every call of \<open>_extractSentence\<close> on a
  non-empty queue takes at least one token, so the loop ends.
\<close>

lemma extractSentence_loop_shorter:
  "extractSentence_loop tbl n tokens words q e = Inr (sentence, rest) \<Longrightarrow>
   length rest \<le> length tokens"
proof (induction tokens arbitrary: words q e)
  case Nil
  then show ?case by simp
next
  case (Cons token tokens)
  then show ?case
    by (auto simp: Let_def le_Suc_eq split: option.splits prod.splits if_splits)
qed

lemma extractSentence_shorter:
  assumes "extractSentence tbl tokens n = Inr (sentence, rest)" and "tokens \<noteq> []"
  shows "length rest < length tokens"
proof -
  from assms(2) obtain token tokens' where t: "tokens = token # tokens'"
    by (cases tokens) auto
  from assms(1) show ?thesis
    unfolding extractSentence_def t
    by (auto simp: Let_def less_Suc_eq_le split: option.splits prod.splits if_splits
        dest: extractSentence_loop_shorter)
qed

function extract_sentences :: "ipa \<Rightarrow> ustring list \<Rightarrow> sentence list \<Rightarrow> error + sentence list" where
  "extract_sentences tbl tokens sentences =
     (if tokens = [] then Inr sentences
      else
        case extractSentence tbl tokens (length sentences + 1) of
          Inl e \<Rightarrow> Inl e
        | Inr (sentence, tokens') \<Rightarrow> extract_sentences tbl tokens' (sentences @ [sentence]))"
  by pat_completeness auto
termination
  by (relation "measure (\<lambda>(tbl, tokens, sentences). length tokens)")
    (auto dest: extractSentence_shorter)

declare extract_sentences.simps [simp del]

text \<open>
  A token ends its sentence when it matches and its third group holds a period, a
  question mark or an exclamation mark: the three tests with which the loop of
  \<open>_extractSentence\<close> is left.
\<close>

definition ends_sentence :: "ipa \<Rightarrow> ustring \<Rightarrow> bool" where
  "ends_sentence tbl token =
     (case WORD_REGEXP_match tbl token of
        None \<Rightarrow> False
      | Some (group1, group2, group3) \<Rightarrow>
          c_period \<in> set group3 \<or> c_question \<in> set group3 \<or> c_exclamation \<in> set group3)"

section \<open>transform: from text to sound\<close>

text \<open>
  \<open>paragraph.split()\<close> on a unicode string: the maximal runs of characters that are not
  whitespace. \<open>isspace\<close> lists the whitespace characters of Python 2.7.
\<close>

definition isspace :: "nat \<Rightarrow> bool" where
  "isspace c =
     ((0x09 \<le> c \<and> c \<le> 0x0D) \<or> (0x1C \<le> c \<and> c \<le> 0x20) \<or> c = 0x85 \<or> c = 0xA0 \<or>
      c = 0x1680 \<or> c = 0x180E \<or> (0x2000 \<le> c \<and> c \<le> 0x200A) \<or> c = 0x2028 \<or>
      c = 0x2029 \<or> c = 0x202F \<or> c = 0x205F \<or> c = 0x3000)"

fun split_loop :: "ustring \<Rightarrow> ustring \<Rightarrow> ustring list" where
  "split_loop current [] = (if current = [] then [] else [current])"
| "split_loop current (c # cs) =
     (if isspace c
      then (if current = [] then split_loop [] cs else current # split_loop [] cs)
      else split_loop (current @ [c]) cs)"

definition split :: "ustring \<Rightarrow> ustring list" where
  "split paragraph = split_loop [] paragraph"

text \<open>
  Of \<open>options\<close> only \<open>options.turbo\<close> has an effect on the result (\<open>verbose\<close> and
  \<open>debug\<close> print), so the functions take \<open>turbo\<close>. Each function returns the samples and
  the synthesizer as the calls have left it.
\<close>

text \<open>The loop of \<open>_phonemeToSound\<close> over \<open>zip(parameters_list, f0_multipliers)\<close>.\<close>

fun phonemeToSound_loop ::
  "bool \<Rightarrow> real \<Rightarrow> (frame \<times> real) list \<Rightarrow> synthesizer \<Rightarrow> error + (int list \<times> synthesizer)" where
  "phonemeToSound_loop turbo pitch_multiplier [] sy = Inr ([], sy)"
| "phonemeToSound_loop turbo pitch_multiplier ((parameters, f0_multiplier) # rest) sy =
     (case synthesize sy parameters (f0_multiplier * pitch_multiplier) turbo of
        Inl e \<Rightarrow> Inl e
      | Inr (samples, sy1) \<Rightarrow>
          (case phonemeToSound_loop turbo pitch_multiplier rest sy1 of
             Inl e \<Rightarrow> Inl e
           | Inr (others, sy2) \<Rightarrow> Inr (samples @ others, sy2)))"

text \<open>
  \<open>_phonemeToSound\<close>. The character of the phoneme and the thirteen arguments that
  describe its surroundings are passed as the record that \<open>applyRules\<close> receives.
\<close>

definition phonemeToSound ::
  "ipa \<Rightarrow> rule_function list \<Rightarrow> bool \<Rightarrow> rule_context \<Rightarrow> real \<Rightarrow> real \<Rightarrow> synthesizer
     \<Rightarrow> error + (int list \<times> synthesizer)" where
  "phonemeToSound tbl rule_functions turbo ctx duration_multiplier pitch_multiplier sy =
     (case IPA_DATA tbl (ctx_ipa_character ctx) of
        None \<Rightarrow> Inl KeyError
      | Some parameters \<Rightarrow>
          if parameters = [] then Inl IndexError
          else
            let parameters1 =
                  butlast parameters @
                  [PInt (py_int (last parameters * PFloat duration_multiplier))]
            in case nasalizeVowel tbl (ctx_ipa_character ctx) (ctx_following_phonemes ctx)
                      [parameters1] of
                 Inl e \<Rightarrow> Inl e
               | Inr nasalized \<Rightarrow>
                   (case bridgeWords tbl (ctx_ipa_character ctx) (ctx_preceding_phonemes ctx)
                           (ctx_following_phonemes ctx) (ctx_previous_words ctx) nasalized of
                      Inl e \<Rightarrow> Inl e
                    | Inr bridged \<Rightarrow>
                        (case shapeContours tbl (ctx_ipa_character ctx)
                                (ctx_preceding_phonemes ctx) (ctx_following_phonemes ctx)
                                bridged of
                           Inl e \<Rightarrow> Inl e
                         | Inr shaped \<Rightarrow>
                             (case applyRules rule_functions ctx shaped of
                                Inl e \<Rightarrow> Inl e
                              | Inr (parameters_list, f0_multipliers) \<Rightarrow>
                                  phonemeToSound_loop turbo pitch_multiplier
                                    (zip parameters_list f0_multipliers) sy))))"

text \<open>
  \<open>_wordToSound\<close>: the loop that folds the extension characters into the multipliers
  of the phoneme before them, and the loop over the phonemes.
\<close>

fun collapse_extensions ::
  "ustring list \<Rightarrow> ustring \<Rightarrow> real \<Rightarrow> real \<Rightarrow> (ustring \<times> real \<times> real) list" where
  "collapse_extensions [] subject duration_multiplier pitch_multiplier =
     [(subject, duration_multiplier, pitch_multiplier)]"
| "collapse_extensions (i # rest) subject duration_multiplier pitch_multiplier =
     (if i = [c_greater]
        then collapse_extensions rest subject (duration_multiplier * 1.5) pitch_multiplier
      else if i = [c_less]
        then collapse_extensions rest subject (duration_multiplier * 0.5) pitch_multiplier
      else if i = [c_plus]
        then collapse_extensions rest subject duration_multiplier (pitch_multiplier * 0.95)
      else if i = [c_minus]
        then collapse_extensions rest subject duration_multiplier (pitch_multiplier * 1.05)
      else (subject, duration_multiplier, pitch_multiplier) #
           collapse_extensions rest i 1 1)"

fun wordToSound_loop ::
  "ipa \<Rightarrow> rule_function list \<Rightarrow> bool \<Rightarrow> rule_context
     \<Rightarrow> (ustring \<times> real \<times> real) list \<Rightarrow> (ustring \<times> real \<times> real) list \<Rightarrow> synthesizer
     \<Rightarrow> error + (int list \<times> synthesizer)" where
  "wordToSound_loop tbl rule_functions turbo ctx before [] sy = Inr ([], sy)"
| "wordToSound_loop tbl rule_functions turbo ctx before
       ((ipa_character, duration_multiplier, pitch_multiplier) # after) sy =
     (case phonemeToSound tbl rule_functions turbo
             (ctx\<lparr>ctx_ipa_character := ipa_character,
                  ctx_preceding_phonemes := map fst before,
                  ctx_following_phonemes := map fst after\<rparr>)
             duration_multiplier pitch_multiplier sy of
        Inl e \<Rightarrow> Inl e
      | Inr (samples, sy1) \<Rightarrow>
          (case wordToSound_loop tbl rule_functions turbo ctx
                  (before @ [(ipa_character, duration_multiplier, pitch_multiplier)]) after sy1 of
             Inl e \<Rightarrow> Inl e
           | Inr (others, sy2) \<Rightarrow> Inr (samples @ others, sy2)))"

definition wordToSound ::
  "ipa \<Rightarrow> rule_function list \<Rightarrow> bool \<Rightarrow> word \<Rightarrow> int \<Rightarrow> int \<Rightarrow> ustring list \<Rightarrow> ustring list
     \<Rightarrow> int \<Rightarrow> int \<Rightarrow> bool \<Rightarrow> bool \<Rightarrow> synthesizer \<Rightarrow> error + (int list \<times> synthesizer)" where
  "wordToSound tbl rule_functions turbo word position remaining_words previous_words
       following_words sentence_position remaining_sentences is_question is_exclamation sy =
     (let (token, markup) = word;
          terminal_pause = (token \<noteq> [] \<and> last token = c_comma);
          token1 = (if terminal_pause then butlast token else token);
          ipa_tokens = reduceIPAClusters tbl token1
      in if ipa_tokens = [] then Inl IndexError
         else
           let phonemes = collapse_extensions (tl ipa_tokens) (hd ipa_tokens) 1 1;
               ctx = \<lparr>ctx_ipa_character = [],
                      ctx_preceding_phonemes = [],
                      ctx_following_phonemes = [],
                      ctx_word_position = position,
                      ctx_remaining_words = remaining_words,
                      ctx_previous_words = previous_words,
                      ctx_following_words = following_words,
                      ctx_sentence_position = sentence_position,
                      ctx_remaining_sentences = remaining_sentences,
                      ctx_is_quoted = (WORD_QUOTED \<in> set markup),
                      ctx_is_emphasized = (WORD_EMPHASIZED \<in> set markup),
                      ctx_is_content = (WORD_CONTENT \<in> set markup),
                      ctx_is_question = is_question,
                      ctx_is_exclamation = is_exclamation\<rparr>
           in case wordToSound_loop tbl rule_functions turbo ctx [] phonemes sy of
                Inl e \<Rightarrow> Inl e
              | Inr (samples, sy1) \<Rightarrow>
                  if terminal_pause
                  then (let (silence, sy2) = generateSilence sy1 250
                        in Inr (samples @ silence, sy2))
                  else Inr (samples, sy1))"

text \<open>\<open>_sentenceToSound\<close> and its loop over the words, of which \<open>i\<close> are done.\<close>

fun sentenceToSound_loop ::
  "ipa \<Rightarrow> rule_function list \<Rightarrow> bool \<Rightarrow> word list \<Rightarrow> ustring list \<Rightarrow> int \<Rightarrow> int \<Rightarrow> bool \<Rightarrow> bool
     \<Rightarrow> nat \<Rightarrow> word list \<Rightarrow> synthesizer \<Rightarrow> error + (int list \<times> synthesizer)" where
  "sentenceToSound_loop tbl rule_functions turbo words filtered_words position
       remaining_sentences is_question is_exclamation i [] sy = Inr ([], sy)"
| "sentenceToSound_loop tbl rule_functions turbo words filtered_words position
       remaining_sentences is_question is_exclamation i (word # rest) sy =
     (case wordToSound tbl rule_functions turbo word (int i + 1)
             (int (length words) - int i - 1) (take i filtered_words)
             (drop (i + 1) filtered_words) position remaining_sentences
             is_question is_exclamation sy of
        Inl e \<Rightarrow> Inl e
      | Inr (samples, sy1) \<Rightarrow>
          (case sentenceToSound_loop tbl rule_functions turbo words filtered_words position
                  remaining_sentences is_question is_exclamation (i + 1) rest sy1 of
             Inl e \<Rightarrow> Inl e
           | Inr (others, sy2) \<Rightarrow> Inr (samples @ others, sy2)))"

definition sentenceToSound ::
  "ipa \<Rightarrow> rule_function list \<Rightarrow> bool \<Rightarrow> sentence \<Rightarrow> int \<Rightarrow> int \<Rightarrow> synthesizer
     \<Rightarrow> error + (int list \<times> synthesizer)" where
  "sentenceToSound tbl rule_functions turbo sentence position remaining_sentences sy =
     (let (words, markup) = sentence;
          is_question = (SENTENCE_QUESTION \<in> set markup);
          is_exclamation = (SENTENCE_EXCLAMATION \<in> set markup);
          filtered_words = map (\<lambda>(w, m). FILTER_REGEXP_sub w) words
      in sentenceToSound_loop tbl rule_functions turbo words filtered_words position
           remaining_sentences is_question is_exclamation 0 words sy)"

text \<open>
  \<open>paragraphToSound\<close> and its loop over the sentences, of which \<open>i\<close> are done. The
  result is the list \<open>sounds\<close> of segments.
\<close>

fun paragraphToSound_loop ::
  "ipa \<Rightarrow> rule_function list \<Rightarrow> bool \<Rightarrow> int list \<Rightarrow> nat \<Rightarrow> nat \<Rightarrow> sentence list \<Rightarrow> synthesizer
     \<Rightarrow> error + (int list list \<times> synthesizer)" where
  "paragraphToSound_loop tbl rule_functions turbo silent_half_second count i [] sy =
     Inr ([], sy)"
| "paragraphToSound_loop tbl rule_functions turbo silent_half_second count i
       (sentence # rest) sy =
     (case sentenceToSound tbl rule_functions turbo sentence (int i + 1)
             (int count - int i - 1) sy of
        Inl e \<Rightarrow> Inl e
      | Inr (samples, sy1) \<Rightarrow>
          (case paragraphToSound_loop tbl rule_functions turbo silent_half_second count
                  (i + 1) rest sy1 of
             Inl e \<Rightarrow> Inl e
           | Inr (others, sy2) \<Rightarrow> Inr (samples # silent_half_second # others, sy2)))"

definition paragraphToSound ::
  "ipa \<Rightarrow> rule_function list \<Rightarrow> bool \<Rightarrow> ustring \<Rightarrow> synthesizer
     \<Rightarrow> error + (int list list \<times> synthesizer)" where
  "paragraphToSound tbl rule_functions turbo paragraph sy =
     (let tokens = split paragraph
      in case extract_sentences tbl tokens [] of
           Inl e \<Rightarrow> Inl e
         | Inr sentences \<Rightarrow>
             let (silent_half_second, sy1) = generateSilence sy 500
             in paragraphToSound_loop tbl rule_functions turbo silent_half_second
                  (length sentences) 0 sentences sy1)"

section \<open>Concrete inputs\<close>

text \<open>
  A parameter-set whose eleven frequencies are 2500 Hz and whose bandwidths are 0, so
  that every resonator has the coefficients \<open>a = 2\<close>, \<open>b = 0\<close>, \<open>c = -1\<close>; voicing
  amplitude 1, every other amplitude 0, duration 1 ms. It is synthesised with the f0
  multiplier \<open>1/32\<close> (a period of two samples) and a random source that returns 0.
\<close>

definition demo_frame :: frame where
  "demo_frame =
     replicate 11 (PInt 2500) @ replicate 11 (PInt 0) @ replicate 5 (PInt 0) @
     [PInt 0, PInt 0, PInt 0, PInt 1, PInt 0] @ [PInt 1]"

definition demo_synth :: synthesizer where
  "demo_synth = \<lparr>noise = 0, random_uniform = (\<lambda>k. 0), drawn = 0\<rparr>"

definition demo_res :: resonator where
  "demo_res = \<lparr>res_a = 2, res_b = 0, res_c = - 1, delay_1 = 0, delay_2 = 0\<rparr>"

definition demo_anti :: resonator where
  "demo_anti = \<lparr>res_a = 1 / 2, res_b = 0, res_c = 1 / 2, delay_1 = 0, delay_2 = 0\<rparr>"

definition demo_bank :: bank where
  "demo_bank =
     \<lparr>cascade_resonators = replicate 6 demo_res,
      parallel_resonators = replicate 5 demo_res,
      glottal_antiresonator = demo_anti,
      glottal_pole_resonator = demo_res,
      glottal_sine_resonator = demo_res,
      nasal_antiresonator = demo_anti,
      nasal_pole_resonator = demo_res\<rparr>"

definition demo_turbo_loop :: "loop_state \<times> bool" where
  "demo_turbo_loop =
     synth_loop (f0_hz_of (1 / 32)) True (map to_real demo_frame)
       (nat (samples_target_of demo_frame + f0_hz_of (1 / 32))) 0
       (initial_state demo_bank (f0_hz_of (1 / 32)) demo_synth)"

text \<open>
  A phoneme table with the vowel \<open>a\<close>, the nasal \<open>n\<close>, the stop \<open>t\<close>, and the entries
  \<open>h\<close> and \<open>U+0294\<close> that the universal rules read. Every parameter-set has the
  frequencies and bandwidths of \<open>demo_frame\<close>; they differ in the voicing amplitude and
  in the duration. Clusters are single characters.
\<close>

definition u_a :: ustring where "u_a = [of_char CHR ''a'']"
definition u_n :: ustring where "u_n = [of_char CHR ''n'']"
definition u_t :: ustring where "u_t = [of_char CHR ''t'']"

definition demo_values :: "int \<Rightarrow> pynum list" where
  "demo_values av =
     replicate 11 (PInt 2500) @ replicate 11 (PInt 0) @ replicate 5 (PInt 0) @
     [PInt 0, PInt 0, PInt 0, PInt av, PInt 0]"

definition demo_table :: "ustring \<rightharpoonup> frame" where
  "demo_table =
     [u_a \<mapsto> demo_values 1 @ [PInt 100],
      u_n \<mapsto> demo_values 4 @ [PInt 80],
      u_t \<mapsto> demo_values 7 @ [PInt 60],
      u_h \<mapsto> demo_values 10 @ [PInt 40],
      u_glottal_stop \<mapsto> demo_values 13 @ [PInt 20]]"

definition demo_ipa :: ipa where
  "demo_ipa =
     \<lparr>IPA_PARAMETERS = demo_table,
      IPA_DATA = demo_table,
      VOWELS = {u_a},
      NASALS = {u_n},
      STOPS = {u_t},
      LIQUIDS = {},
      reduceIPAClusters = map (\<lambda>c. [c])\<rparr>"

text \<open>Two rule functions that append one parameter-set each, and one that sets the pitch.\<close>

definition demo_rule_1 :: rule_function where
  "demo_rule_1 ctx transformed remaining preceding following parameters =
     Inr ([[PInt 11]], [[PInt 12]], 1, parameters)"

definition demo_rule_2 :: rule_function where
  "demo_rule_2 ctx transformed remaining preceding following parameters =
     Inr ([[PInt 21]], [[PInt 22]], 1, parameters)"

definition demo_rule_pitch :: rule_function where
  "demo_rule_pitch ctx transformed remaining preceding following parameters =
     Inr ([], [], 1 / 32, parameters)"

definition demo_context :: rule_context where
  "demo_context =
     \<lparr>ctx_ipa_character = u_a,
      ctx_preceding_phonemes = [],
      ctx_following_phonemes = [],
      ctx_word_position = 1,
      ctx_remaining_words = 0,
      ctx_previous_words = [],
      ctx_following_words = [],
      ctx_sentence_position = 1,
      ctx_remaining_sentences = 0,
      ctx_is_quoted = False,
      ctx_is_emphasized = False,
      ctx_is_content = False,
      ctx_is_question = False,
      ctx_is_exclamation = False\<rparr>"

text \<open>
  Two paragraphs: \<open>a. a .\<close>, whose third token is a bare period, and \<open>a<<<<<<.\<close>, one
  sentence of one word whose only phoneme lasts \<open>int(100 / 64) = 1\<close> ms.
\<close>

definition demo_malformed_paragraph :: ustring where
  "demo_malformed_paragraph = map of_char ''a. a .''"

definition demo_paragraph :: ustring where
  "demo_paragraph = map of_char ''a<<<<<<.''"

section \<open>Properties of the synthesizer\<close>

lemma tick_sounds_emit:
  "f0_hz \<le> t \<Longrightarrow> \<exists>x. - 32768 \<le> x \<and> x \<le> 32767 \<and> sounds (fst (tick f0_hz turbo p t s)) = sounds s @ [x]"
  by (auto simp add: tick_def Let_def split: prod.splits)

lemma tick_sounds_warmup:
  "\<not> f0_hz \<le> t \<Longrightarrow> sounds (fst (tick f0_hz turbo p t s)) = sounds s"
  by (auto simp add: tick_def Let_def split: prod.splits)

lemma tick_broke:
  "snd (tick f0_hz turbo p t s) = (f0_hz \<le> t \<and> turbo \<and> t = f0_hz * 2 - 1)"
  by (simp add: tick_def Let_def split: prod.splits)

lemma tick_drawn:
  "drawn (synth (fst (tick f0_hz turbo p t s))) = Suc (drawn (synth s))"
  by (simp add: tick_def Let_def getNoise_def split: prod.splits)

lemma synth_loop_Suc:
  "synth_loop f0_hz turbo p (Suc n) t s =
     (if snd (tick f0_hz turbo p t s) then (fst (tick f0_hz turbo p t s), True)
      else synth_loop f0_hz turbo p n (t + 1) (fst (tick f0_hz turbo p t s)))"
  by (simp add: Let_def split: prod.splits)

lemma synth_loop_range:
  "\<forall>x\<in>set (sounds s). - 32768 \<le> x \<and> x \<le> 32767 \<Longrightarrow>
   \<forall>x\<in>set (sounds (fst (synth_loop f0_hz turbo p n t s))). - 32768 \<le> x \<and> x \<le> 32767"
proof (induction n arbitrary: t s)
  case 0
  then show ?case by simp
next
  case (Suc n)
  let ?s = "fst (tick f0_hz turbo p t s)"
  have s': "\<forall>x\<in>set (sounds ?s). - 32768 \<le> x \<and> x \<le> 32767"
  proof (cases "f0_hz \<le> t")
    case True
    from tick_sounds_emit [OF True, of turbo p s] Suc.prems show ?thesis by auto
  next
    case False
    from tick_sounds_warmup [OF False, of turbo p s] Suc.prems show ?thesis by simp
  qed
  show ?case
    using s' Suc.IH [OF s'] by (simp only: synth_loop_Suc split: if_splits) simp
qed

lemma synth_loop_length:
  assumes "0 \<le> f0_hz" and "0 \<le> t" and "int (length (sounds s)) = max 0 (t - f0_hz)"
  shows "(if turbo \<and> 0 < f0_hz \<and> t \<le> 2 * f0_hz - 1 \<and> 2 * f0_hz - 1 < t + int n
          then snd (synth_loop f0_hz turbo p n t s) \<and>
               int (length (sounds (fst (synth_loop f0_hz turbo p n t s)))) = f0_hz \<and>
               int (drawn (synth (fst (synth_loop f0_hz turbo p n t s)))) = int (drawn (synth s)) + (2 * f0_hz - t)
          else \<not> snd (synth_loop f0_hz turbo p n t s) \<and>
               int (length (sounds (fst (synth_loop f0_hz turbo p n t s)))) = max 0 (t + int n - f0_hz) \<and>
               drawn (synth (fst (synth_loop f0_hz turbo p n t s))) = drawn (synth s) + n)"
  using assms
proof (induction n arbitrary: t s)
  case 0
  then show ?case by simp
next
  case (Suc n)
  let ?s = "fst (tick f0_hz turbo p t s)"
  have len: "int (length (sounds ?s)) = max 0 (t + 1 - f0_hz)"
  proof (cases "f0_hz \<le> t")
    case True
    from tick_sounds_emit [OF True, of turbo p s] Suc.prems True show ?thesis by auto
  next
    case False
    from tick_sounds_warmup [OF False, of turbo p s] Suc.prems False show ?thesis by simp
  qed
  show ?case
  proof (cases "snd (tick f0_hz turbo p t s)")
    case True
    then have "f0_hz \<le> t" "turbo" "t = f0_hz * 2 - 1" by (simp_all add: tick_broke)
    with True len show ?thesis
      by (simp add: synth_loop_Suc tick_drawn del: synth_loop.simps)
  next
    case False
    have t1: "0 \<le> t + 1" using Suc.prems by simp
    from False have nb: "\<not> (f0_hz \<le> t \<and> turbo \<and> t = f0_hz * 2 - 1)" by (simp add: tick_broke)
    from Suc.IH [OF Suc.prems(1) t1 len] False nb show ?thesis
      by (simp only: synth_loop_Suc tick_drawn split: if_splits) (auto split: if_splits)
  qed
qed


lemma synth_loop_broke_nonempty:
  "snd (synth_loop f0_hz turbo p n t s) \<Longrightarrow> sounds (fst (synth_loop f0_hz turbo p n t s)) \<noteq> []"
proof (induction n arbitrary: t s)
  case 0
  then show ?case by simp
next
  case (Suc n)
  show ?case
  proof (cases "snd (tick f0_hz turbo p t s)")
    case True
    then have "f0_hz \<le> t" by (simp add: tick_broke)
    from tick_sounds_emit [OF this, of turbo p s] True show ?thesis
      by (auto simp add: synth_loop_Suc simp del: synth_loop.simps)
  next
    case False
    with Suc show ?thesis by (simp add: synth_loop_Suc del: synth_loop.simps)
  qed
qed

lemma length_concat_replicate: "length (concat (replicate n xs)) = n * length xs"
  by (induction n) simp_all

lemma nth_concat_replicate:
  "i < n * length xs \<Longrightarrow> concat (replicate n xs) ! i = xs ! (i mod length xs)"
proof (induction n arbitrary: i)
  case 0
  then show ?case by simp
next
  case (Suc n)
  show ?case
  proof (cases "i < length xs")
    case True
    then show ?thesis by (simp add: nth_append)
  next
    case False
    then have "i - length xs < n * length xs" using Suc.prems by simp
    from Suc.IH [OF this] False show ?thesis
      by (simp add: nth_append le_mod_geq)
  qed
qed

lemma concat_replicate_double:
  "concat (replicate n (xs @ xs)) = concat (replicate (2 * n) xs)"
  by (induction n) simp_all

lemma tile_while_terminates:
  "snds \<noteq> [] \<Longrightarrow>
   \<exists>k. tile_while snds T = Some (concat (replicate (2 ^ k) snds)) \<and>
       T \<le> 2 * (2 ^ k * int (length snds)) \<and>
       (int (length snds) \<le> T \<longrightarrow> 2 ^ k * int (length snds) \<le> T)"
proof (induction "nat (T - 2 * int (length snds))" arbitrary: snds rule: less_induct)
  case less
  show ?case
  proof (cases "int (length snds) * 2 < T")
    case False
    have "tile_while snds T = Some snds"
      by (subst tile_while.simps) (simp add: False)
    with False show ?thesis
      by (intro exI [of _ 0]) simp
  next
    case True
    from less.prems have pos: "0 < length snds" by simp
    with True have dec: "nat (T - 2 * int (length (snds @ snds))) < nat (T - 2 * int (length snds))"
      by simp
    have ne: "snds @ snds \<noteq> []" using less.prems by simp
    from less.hyps [OF dec ne] obtain k where
      k: "tile_while (snds @ snds) T = Some (concat (replicate (2 ^ k) (snds @ snds)))"
         "T \<le> 2 * (2 ^ k * int (length (snds @ snds)))"
         "int (length (snds @ snds)) \<le> T \<longrightarrow> 2 ^ k * int (length (snds @ snds)) \<le> T"
      by blast
    have "tile_while snds T = tile_while (snds @ snds) T"
      by (subst tile_while.simps) (simp add: True)
    with k True show ?thesis
      by (intro exI [of _ "Suc k"]) (simp add: concat_replicate_double algebra_simps)
  qed
qed


lemma turbo_tile_subset:
  assumes "snds \<noteq> []"
  shows "\<exists>out. turbo_tile snds T = Some out \<and> set out \<subseteq> set snds"
proof -
  from tile_while_terminates [OF assms, of T] obtain k where
    k: "tile_while snds T = Some (concat (replicate (2 ^ k) snds))" by blast
  have "set (concat (replicate (2 ^ k) snds)) \<subseteq> set snds" by auto
  with k show ?thesis
    by (auto simp: turbo_tile_def py_take_def dest!: in_set_takeD)
qed

lemma turbo_tile_cyclic:
  assumes ne: "snds \<noteq> []" and le: "int (length snds) \<le> T"
  shows "\<exists>out. turbo_tile snds T = Some out \<and> int (length out) = T \<and>
               (\<forall>i<length out. out ! i = snds ! (i mod length snds))"
proof -
  from tile_while_terminates [OF ne, of T] le obtain k where
    k: "tile_while snds T = Some (concat (replicate (2 ^ k) snds))"
       "T \<le> 2 * (2 ^ k * int (length snds))"
       "2 ^ k * int (length snds) \<le> T" by blast
  define r where "r = concat (replicate (2 ^ k) snds)"
  have lr: "length r = 2 ^ k * length snds"
    by (simp add: r_def length_concat_replicate)
  have lr_le: "int (length r) \<le> T" and lr_ge: "T \<le> 2 * int (length r)"
    using k(2,3) by (simp_all add: lr)
  define out where "out = r @ take (nat (T - int (length r))) r"
  have tt: "turbo_tile snds T = Some out"
    using k(1) lr_le by (simp add: turbo_tile_def py_take_def out_def r_def)
  have "nat (T - int (length r)) \<le> length r"
    using lr_ge by linarith
  then have "length out = length r + nat (T - int (length r))"
    by (simp add: out_def min_def)
  then have lo: "int (length out) = T"
    using lr_le by linarith
  have nth: "out ! i = snds ! (i mod length snds)" if i: "i < length out" for i
  proof (cases "i < length r")
    case True
    then have "out ! i = r ! i" by (simp add: out_def nth_append)
    also have "\<dots> = snds ! (i mod length snds)"
    proof -
      from True have "i < 2 ^ k * length snds" by (simp add: lr)
      then show ?thesis by (simp add: r_def nth_concat_replicate)
    qed
    finally show ?thesis .
  next
    case False
    let ?j = "i - length r"
    from False i have j: "?j < length r" "?j < nat (T - int (length r))"
      using lr_ge lo by (auto simp: out_def)
    from False have "out ! i = take (nat (T - int (length r))) r ! ?j"
      by (simp add: out_def nth_append)
    also have "\<dots> = r ! ?j" using j by simp
    also have "\<dots> = snds ! (?j mod length snds)"
    proof -
      from j(1) have "?j < 2 ^ k * length snds" by (simp add: lr)
      then show ?thesis by (simp add: r_def nth_concat_replicate)
    qed
    also have "?j mod length snds = i mod length snds"
    proof -
      from False have "i = ?j + 2 ^ k * length snds" by (simp add: lr)
      then have "i mod length snds = (?j + 2 ^ k * length snds) mod length snds" by simp
      then show ?thesis by simp
    qed
    finally show ?thesis .
  qed
  from tt lo nth show ?thesis by blast
qed

lemma synthesize_unfold:
  assumes "length parameters = 33"
    and "initResonators (take 11 (map to_real parameters)) (take 11 (drop 11 (map to_real parameters))) = Inr bk"
  shows "synthesize sy parameters f0_multiplier turbo =
     (let r = synth_loop (f0_hz_of f0_multiplier) turbo (map to_real parameters)
                (nat (samples_target_of parameters + f0_hz_of f0_multiplier)) 0
                (initial_state bk (f0_hz_of f0_multiplier) sy)
      in if snd r
         then (case turbo_tile (sounds (fst r)) (samples_target_of parameters) of
                 None \<Rightarrow> Inl NonTermination
               | Some out \<Rightarrow> Inr (out, synth (fst r)))
         else Inr (sounds (fst r), synth (fst r)))"
  using assms by (simp add: synthesize_def Let_def case_prod_beta)

lemma synthesize_Inr_init:
  assumes "synthesize sy parameters f0_multiplier turbo = Inr res"
  shows "length parameters = 33 \<and>
         (\<exists>bk. initResonators (take 11 (map to_real parameters)) (take 11 (drop 11 (map to_real parameters))) = Inr bk)"
  using assms by (auto simp add: synthesize_def Let_def split: if_splits sum.splits)

text \<open>
  \<open>synthesize\<close> returns whenever the parameter-set has 33 fields and no anti-resonator
  gets the coefficient \<open>a = 0\<close>; otherwise it raises \<open>ValueError\<close> or
  \<open>ZeroDivisionError\<close>. The tiling loop always ends.
\<close>

lemma synthesize_returns:
  assumes len: "length parameters = 33"
    and bk: "initResonators (take 11 (map to_real parameters))
               (take 11 (drop 11 (map to_real parameters))) = Inr bk"
  shows "\<exists>out sy'. synthesize sy parameters f0_multiplier turbo = Inr (out, sy')"
proof -
  define r where "r = synth_loop (f0_hz_of f0_multiplier) turbo (map to_real parameters)
                (nat (samples_target_of parameters + f0_hz_of f0_multiplier)) 0
                (initial_state bk (f0_hz_of f0_multiplier) sy)"
  show ?thesis
  proof (cases "snd r")
    case True
    then have "sounds (fst r) \<noteq> []"
      unfolding r_def by (rule synth_loop_broke_nonempty)
    from turbo_tile_subset [OF this, of "samples_target_of parameters"] True show ?thesis
      by (auto simp add: synthesize_unfold [OF len bk] r_def [symmetric])
  next
    case False
    then show ?thesis
      by (simp add: synthesize_unfold [OF len bk] r_def [symmetric])
  qed
qed

lemma synthesize_errors:
  assumes "synthesize sy parameters f0_multiplier turbo = Inl e"
  shows "e = ValueError \<or> e = ZeroDivisionError"
proof (cases "length parameters = 33")
  case False
  with assms show ?thesis by (simp add: synthesize_def)
next
  case True
  show ?thesis
  proof (cases "initResonators (take 11 (map to_real parameters))
                  (take 11 (drop 11 (map to_real parameters)))")
    case (Inl e')
    then have "e' = ValueError \<or> e' = ZeroDivisionError"
      by (auto simp: initResonators_def AntiResonator_init_def Let_def
          split: if_splits sum.splits)
    moreover from assms True Inl have "e = e'" by (simp add: synthesize_def)
    ultimately show ?thesis by simp
  next
    case (Inr bk)
    from synthesize_returns [OF True Inr, of sy f0_multiplier turbo] assms show ?thesis
      by auto
  qed
qed

subsection \<open>The concrete run\<close>

lemma demo_p:
  "map to_real demo_frame =
     [2500, 2500, 2500, 2500, 2500, 2500, 2500, 2500, 2500, 2500, 2500,
      0, 0, 0, 0, 0, 0, 0, 0, 0, 0, 0, 0, 0, 0, 0, 0, 0, 0, 0, 1, 0, 1]"
  by (simp add: demo_frame_def numeral_eq_Suc)

lemma demo_init:
  "initResonators (take 11 (map to_real demo_frame)) (take 11 (drop 11 (map to_real demo_frame)))
     = Inr demo_bank"
  by (simp add: demo_p initResonators_def demo_bank_def demo_res_def demo_anti_def Let_def
      AntiResonator_init_def Resonator_init_def numeral_eq_Suc)

lemma demo_f0_hz: "f0_hz_of (1 / 32) = 2"
  by (simp add: f0_hz_of_def F0_HZ_def float_to_int_def)

lemma demo_samples_target: "samples_target_of demo_frame = 10"
  by (simp add: samples_target_of_def demo_frame_def FREQUENCY_def numeral_eq_Suc)

lemmas eval_defs = tick_def cascade_value_def getNoise_def Resonator_resonate_def
  AntiResonator_resonate_def Resonator_resonate_inner_def Let_def float_to_int_def
  initial_state_def demo_bank_def demo_res_def demo_anti_def demo_synth_def

lemma demo_turbo_loop_eval:
  "snd demo_turbo_loop"
  "sounds (fst demo_turbo_loop) = [- 32768, 32767]"
  "synth (fst demo_turbo_loop) = demo_synth\<lparr>drawn := 4\<rparr>"
  by (simp_all add: demo_turbo_loop_def demo_f0_hz demo_samples_target demo_p eval_defs numeral_eq_Suc)

lemma demo_loop_eval:
  "\<not> snd (synth_loop 2 False (map to_real demo_frame) 12 0 (initial_state demo_bank 2 demo_synth))"
  "sounds (fst (synth_loop 2 False (map to_real demo_frame) 12 0 (initial_state demo_bank 2 demo_synth)))
     = [- 32768, 32767, 32767, - 32768, - 32768, 32767, 32767, - 32768, - 32768, 32767]"
  "synth (fst (synth_loop 2 False (map to_real demo_frame) 12 0 (initial_state demo_bank 2 demo_synth)))
     = demo_synth\<lparr>drawn := 12\<rparr>"
  by (simp_all add: demo_p eval_defs numeral_eq_Suc)


lemma demo_synthesize_eval:
  "synthesize demo_synth demo_frame (1 / 32) False =
     Inr ([- 32768, 32767, 32767, - 32768, - 32768, 32767, 32767, - 32768, - 32768, 32767],
          demo_synth\<lparr>drawn := 12\<rparr>)"
proof -
  have len: "length demo_frame = 33" by (simp add: demo_frame_def)
  show ?thesis
    by (simp add: synthesize_unfold [OF len demo_init] demo_f0_hz demo_samples_target
        demo_loop_eval)
qed

lemma demo_turbo_tile: "turbo_tile [- 32768, 32767 :: int] 10 =
    Some [- 32768, 32767, - 32768, 32767, - 32768, 32767, - 32768, 32767, - 32768, 32767]"
proof -
  have "tile_while [- 32768, 32767 :: int] 10 =
          Some [- 32768, 32767, - 32768, 32767, - 32768, 32767, - 32768, 32767]"
    by (subst tile_while.simps, simp)+
  then show ?thesis by (simp add: turbo_tile_def py_take_def)
qed

lemma demo_synthesize_turbo_eval:
  "synthesize demo_synth demo_frame (1 / 32) True =
     Inr ([- 32768, 32767, - 32768, 32767, - 32768, 32767, - 32768, 32767, - 32768, 32767],
          demo_synth\<lparr>drawn := 4\<rparr>)"
proof -
  have len: "length demo_frame = 33" by (simp add: demo_frame_def)
  have "synthesize demo_synth demo_frame (1 / 32) True =
          (if snd demo_turbo_loop
           then (case turbo_tile (sounds (fst demo_turbo_loop)) (samples_target_of demo_frame) of
                   None \<Rightarrow> Inl NonTermination
                 | Some out \<Rightarrow> Inr (out, synth (fst demo_turbo_loop)))
           else Inr (sounds (fst demo_turbo_loop), synth (fst demo_turbo_loop)))"
    by (simp only: synthesize_unfold [OF len demo_init] demo_turbo_loop_def Let_def)
  then show ?thesis
    by (simp add: demo_turbo_loop_eval demo_samples_target demo_turbo_tile)
qed

text \<open>
  Claim C1. Whenever \<open>synthesize\<close> returns, for any parameter-set, any f0 multiplier and
  either turbo setting, every sample of the returned sequence lies in the signed 16-bit
  range from -32768 to 32767.
\<close>

theorem synthesize_range:
  assumes "synthesize sy parameters f0_multiplier turbo = Inr (out, sy')"
  shows "\<forall>x\<in>set out. - 32768 \<le> x \<and> x \<le> 32767"
proof -
  from synthesize_Inr_init [OF assms] obtain bk where
    len: "length parameters = 33" and
    bk: "initResonators (take 11 (map to_real parameters)) (take 11 (drop 11 (map to_real parameters))) = Inr bk"
    by blast
  define r where "r = synth_loop (f0_hz_of f0_multiplier) turbo (map to_real parameters)
                (nat (samples_target_of parameters + f0_hz_of f0_multiplier)) 0
                (initial_state bk (f0_hz_of f0_multiplier) sy)"
  have rng: "\<forall>x\<in>set (sounds (fst r)). - 32768 \<le> x \<and> x \<le> 32767"
    unfolding r_def by (rule synth_loop_range) (simp add: initial_state_def)
  have "set out \<subseteq> set (sounds (fst r))"
  proof (cases "snd r")
    case True
    then have "sounds (fst r) \<noteq> []"
      unfolding r_def by (rule synth_loop_broke_nonempty)
    from turbo_tile_subset [OF this, of "samples_target_of parameters"] obtain o' where
      "turbo_tile (sounds (fst r)) (samples_target_of parameters) = Some o'" "set o' \<subseteq> set (sounds (fst r))"
      by blast
    with assms True show ?thesis
      by (simp add: synthesize_unfold [OF len bk] r_def [symmetric])
  next
    case False
    with assms show ?thesis
      by (simp add: synthesize_unfold [OF len bk] r_def [symmetric])
  qed
  with rng show ?thesis by blast
qed


theorem synthesize_range_witness:
  "synthesize demo_synth demo_frame (1 / 32) False =
     Inr ([- 32768, 32767, 32767, - 32768, - 32768, 32767, 32767, - 32768, - 32768, 32767],
          demo_synth\<lparr>drawn := 12\<rparr>) \<and>
   list_all (\<lambda>x. - 32768 \<le> x \<and> x \<le> 32767)
     [- 32768, 32767, 32767, - 32768, - 32768, 32767, 32767, - 32768, - 32768, 32767 :: int]"
  using synthesize_range [OF demo_synthesize_eval] demo_synthesize_eval
  by (simp only: list_all_iff)

text \<open>
  Claim C5. A turbo-mode call of \<open>synthesize\<close> with a positive f0 multiplier and a target
  of \<open>T \<ge> 0\<close> samples returns exactly \<open>T\<close> samples, and every sample at an index
  \<open>i \<ge> 2 * f0_hz\<close> equals the sample at the index \<open>i mod (2 * f0_hz)\<close>, where \<open>f0_hz\<close> is
  the length of a period: the output is a cyclic repetition of its first \<open>2 * f0_hz\<close>
  samples, cut at \<open>T\<close>.
\<close>

theorem synthesize_turbo_cyclic:
  assumes ret: "synthesize sy parameters f0_multiplier True = Inr (out, sy')"
    and m: "0 < f0_multiplier"
    and T: "0 \<le> samples_target_of parameters"
  shows "int (length out) = samples_target_of parameters \<and>
         (0 < f0_hz_of f0_multiplier \<longrightarrow>
            (\<forall>i. 2 * f0_hz_of f0_multiplier \<le> int i \<and> i < length out \<longrightarrow>
                 out ! i = out ! (i mod nat (2 * f0_hz_of f0_multiplier))))"
proof -
  define f0 where "f0 = f0_hz_of f0_multiplier"
  define tgt where "tgt = samples_target_of parameters"
  from synthesize_Inr_init [OF ret] obtain bk where
    len: "length parameters = 33" and
    bk: "initResonators (take 11 (map to_real parameters)) (take 11 (drop 11 (map to_real parameters))) = Inr bk"
    by blast
  define r where "r = synth_loop f0 True (map to_real parameters) (nat (tgt + f0)) 0
                        (initial_state bk f0 sy)"
  have f0_nonneg: "0 \<le> f0"
    using m by (simp add: f0_def f0_hz_of_def float_to_int_def F0_HZ_def)
  have init_len: "int (length (sounds (initial_state bk f0 sy))) = max 0 (0 - f0)"
    using f0_nonneg by (simp add: initial_state_def)
  note inv = synth_loop_length [OF f0_nonneg order_refl init_len, of True "nat (tgt + f0)" "map to_real parameters",
      folded r_def]
  have "synthesize sy parameters f0_multiplier True =
        (if snd r
         then (case turbo_tile (sounds (fst r)) tgt of
                 None \<Rightarrow> Inl NonTermination
               | Some out \<Rightarrow> Inr (out, synth (fst r)))
         else Inr (sounds (fst r), synth (fst r)))"
    unfolding r_def f0_def tgt_def
    by (simp only: synthesize_unfold [OF len bk] Let_def)
  with ret have unf: "(if snd r
         then (case turbo_tile (sounds (fst r)) tgt of
                 None \<Rightarrow> Inl NonTermination
               | Some out \<Rightarrow> Inr (out, synth (fst r)))
         else Inr (sounds (fst r), synth (fst r))) = Inr (out, sy')"
    by simp
  show ?thesis
  proof (cases "0 < f0 \<and> f0 \<le> tgt")
    case True
    with inv T have brk: "snd r" and lb: "int (length (sounds (fst r))) = f0"
      by (auto simp: tgt_def split: if_splits)
    from lb True have ne: "sounds (fst r) \<noteq> []" by auto
    from lb True have le: "int (length (sounds (fst r))) \<le> tgt" by simp
    from turbo_tile_cyclic [OF ne le] obtain out' where
      tt: "turbo_tile (sounds (fst r)) tgt = Some out'" and
      lo: "int (length out') = tgt" and
      cyc: "\<forall>i<length out'. out' ! i = sounds (fst r) ! (i mod length (sounds (fst r)))"
      by blast
    from unf brk tt have out: "out = out'" by simp
    have lnat: "length (sounds (fst r)) = nat f0" using lb by simp
    have "out ! i = out ! (i mod nat (2 * f0))" if i: "i < length out" for i
    proof -
      have j: "i mod nat (2 * f0) < length out"
        using i by (meson le_less_trans mod_less_eq_dividend)
      have "nat (2 * f0) = 2 * nat f0" using True by simp
      then have "(i mod nat (2 * f0)) mod nat f0 = i mod nat f0"
        by (simp add: mod_mod_cancel)
      with cyc i j show ?thesis by (simp add: out lnat)
    qed
    with lo show ?thesis by (simp add: out f0_def tgt_def)
  next
    case False
    with inv T f0_nonneg have nb: "\<not> snd r"
      and lb: "int (length (sounds (fst r))) = max 0 (int (nat (tgt + f0)) - f0)"
      by (auto simp: tgt_def split: if_splits)
    from unf nb have out: "out = sounds (fst r)" by simp
    from lb T f0_nonneg have lo: "int (length out) = tgt" by (simp add: out tgt_def)
    from False lo have "0 < f0 \<longrightarrow> (\<forall>i. 2 * f0 \<le> int i \<and> i < length out \<longrightarrow> False)"
      by auto
    with lo show ?thesis by (auto simp: f0_def tgt_def)
  qed
qed

theorem synthesize_turbo_cyclic_witness:
  "0 < (1 / 32 :: real) \<and> 0 \<le> samples_target_of demo_frame \<and> 0 < f0_hz_of (1 / 32) \<and>
   synthesize demo_synth demo_frame (1 / 32) True =
     Inr ([- 32768, 32767, - 32768, 32767, - 32768, 32767, - 32768, 32767, - 32768, 32767],
          demo_synth\<lparr>drawn := 4\<rparr>) \<and>
   int (length [- 32768, 32767, - 32768, 32767, - 32768, 32767, - 32768, 32767, - 32768, 32767 :: int])
     = samples_target_of demo_frame \<and>
   [- 32768, 32767, - 32768, 32767, - 32768, 32767, - 32768, 32767, - 32768, 32767 :: int] ! 7
     = [- 32768, 32767, - 32768, 32767, - 32768, 32767, - 32768, 32767, - 32768, 32767] !
         (7 mod nat (2 * f0_hz_of (1 / 32)))"
proof -
  have m: "0 < (1 / 32 :: real)" by simp
  have T: "0 \<le> samples_target_of demo_frame" by (simp add: demo_samples_target)
  from synthesize_turbo_cyclic [OF demo_synthesize_turbo_eval m T]
  show ?thesis using demo_synthesize_turbo_eval by (simp add: demo_f0_hz demo_samples_target)
qed

text \<open>
  Claim C6, as amended. In turbo mode, with a period of \<open>f0_hz > 0\<close> samples and a target
  of at least \<open>f0_hz\<close> samples, the loop is left by \<open>break\<close> after exactly \<open>2 * f0_hz\<close>
  iterations (one noise value is drawn in each), the first \<open>f0_hz\<close> of which are the
  discarded warm-up: the buffer that is then tiled holds exactly \<open>f0_hz\<close> samples, one
  period and not two.
\<close>

theorem turbo_buffer_one_period:
  assumes "0 < f0_hz" and "f0_hz \<le> samples_target"
  shows "snd (synth_loop f0_hz True p (nat (samples_target + f0_hz)) 0 (initial_state bk f0_hz sy)) \<and>
         int (length (sounds (fst (synth_loop f0_hz True p (nat (samples_target + f0_hz)) 0
                                     (initial_state bk f0_hz sy))))) = f0_hz \<and>
         int (drawn (synth (fst (synth_loop f0_hz True p (nat (samples_target + f0_hz)) 0
                                     (initial_state bk f0_hz sy))))) = int (drawn sy) + 2 * f0_hz"
proof -
  have f0_nonneg: "0 \<le> f0_hz" using assms by simp
  have init_len: "int (length (sounds (initial_state bk f0_hz sy))) = max 0 (0 - f0_hz)"
    using f0_nonneg by (simp add: initial_state_def)
  have sy: "synth (initial_state bk f0_hz sy) = sy" by (simp add: initial_state_def)
  from synth_loop_length [OF f0_nonneg order_refl init_len, of True "nat (samples_target + f0_hz)" p]
    assms sy
  show ?thesis by (simp split: if_splits)
qed

theorem turbo_buffer_one_period_witness:
  "(0::int) < 2 \<and> (2::int) \<le> 10 \<and>
   snd (synth_loop 2 True (map to_real demo_frame) (nat (10 + 2)) 0 (initial_state demo_bank 2 demo_synth)) \<and>
   int (length (sounds (fst (synth_loop 2 True (map to_real demo_frame) (nat (10 + 2)) 0
                               (initial_state demo_bank 2 demo_synth))))) = 2"
  using turbo_buffer_one_period [of 2 10 "map to_real demo_frame" demo_bank demo_synth] by simp

text \<open>
  The claim C6 as stated fails: on the concrete input, with a period of 2 samples and a
  target of 10, the buffer with which the loop is left holds 2 samples, not 4.
\<close>

theorem turbo_buffer_two_periods_counterexample:
  "f0_hz_of (1 / 32) = 2 \<and> samples_target_of demo_frame = 10 \<and>
   snd demo_turbo_loop \<and> sounds (fst demo_turbo_loop) = [- 32768, 32767] \<and>
   int (length (sounds (fst demo_turbo_loop))) \<noteq> 2 * f0_hz_of (1 / 32)"
  by (simp add: demo_turbo_loop_eval demo_f0_hz demo_samples_target)

text \<open>
  Claim C7. For every non-negative number of milliseconds \<open>m\<close>, \<open>generateSilence\<close> returns
  exactly \<open>m * 10\<close> samples, all of them zero, and sets the noise accumulator to 0; in
  particular \<open>generateSilence(500)\<close> returns 5000 zero samples.
\<close>

theorem generateSilence_zeros:
  assumes "0 \<le> m"
  shows "int (length (fst (generateSilence s m))) = m * 10 \<and>
         (\<forall>x\<in>set (fst (generateSilence s m)). x = 0) \<and>
         noise (snd (generateSilence s m)) = 0 \<and>
         fst (generateSilence s 500) = replicate 5000 0 \<and>
         noise (snd (generateSilence s 500)) = 0"
  using assms by (simp add: generateSilence_def FREQUENCY_def)

theorem generateSilence_zeros_witness:
  "(0::int) \<le> 500 \<and>
   int (length (fst (generateSilence \<lparr>noise = 1, random_uniform = (\<lambda>k. 0), drawn = 0\<rparr> 500))) = 500 * 10 \<and>
   noise (snd (generateSilence \<lparr>noise = 1, random_uniform = (\<lambda>k. 0), drawn = 0\<rparr> 500)) = 0"
  using generateSilence_zeros [of 500 "\<lparr>noise = 1, random_uniform = (\<lambda>k. 0), drawn = 0\<rparr>"]
  by simp

section \<open>Properties of the universal rules\<close>

lemma float_to_int_scaled:
  fixes p q :: int
  assumes "0 \<le> d" and "0 \<le> p" and "0 < q"
  shows "float_to_int (of_int d * (of_int p / of_int q)) = p * d div q"
proof -
  have "(0::real) \<le> of_int d * (of_int p / of_int q)" using assms by simp
  then have "float_to_int (of_int d * (of_int p / of_int q)) = \<lfloor>of_int (p * d) / of_int q :: real\<rfloor>"
    by (simp add: float_to_int_def mult.commute)
  also have "\<dots> = p * d div q" by (rule floor_divide_of_int_eq)
  finally show ?thesis .
qed

lemma nasal_durations:
  assumes "0 \<le> d"
  shows "py_int (PInt d * PFloat (1 / 2)) = d div 2"
    and "py_int (PInt d * PFloat (167 / 1000)) = 167 * d div 1000"
    and "py_int (PInt d * PFloat (333 / 1000)) = 333 * d div 1000"
  using float_to_int_scaled [OF assms, of 1 2] float_to_int_scaled [OF assms, of 167 1000]
    float_to_int_scaled [OF assms, of 333 1000]
  by simp_all

lemma div_bounds:
  fixes x q :: int
  assumes "0 < q"
  shows "q * (x div q) \<le> x" and "x < q * (x div q) + q"
proof -
  have "x = q * (x div q) + x mod q" by simp
  moreover have "0 \<le> x mod q" "x mod q < q" using assms by simp_all
  ultimately show "q * (x div q) \<le> x" and "x < q * (x div q) + q" by linarith+
qed

lemma nasal_durations_sum:
  fixes d :: int
  shows "d - 2 \<le> d div 2 + 167 * d div 1000 + 333 * d div 1000"
    and "d div 2 + 167 * d div 1000 + 333 * d div 1000 \<le> d"
proof -
  have h: "2 * (d div 2) \<le> d" "d < 2 * (d div 2) + 2"
    by (rule div_bounds, simp)+
  have a: "1000 * (167 * d div 1000) \<le> 167 * d" "167 * d < 1000 * (167 * d div 1000) + 1000"
    by (rule div_bounds, simp)+
  have b: "1000 * (333 * d div 1000) \<le> 333 * d" "333 * d < 1000 * (333 * d div 1000) + 1000"
    by (rule div_bounds, simp)+
  from h a b show "d - 2 \<le> d div 2 + 167 * d div 1000 + 333 * d div 1000" by linarith
  from h a b show "d div 2 + 167 * d div 1000 + 333 * d div 1000 \<le> d" by linarith
qed

subsection \<open>The float products of the durations\<close>

text \<open>
  The product of a duration \<open>d\<close> from 0 to 3000000 with a double \<open>c\<close> that lies at most
  \<open>2 ^ -55\<close> above \<open>p / 1000\<close> is rounded to a double \<open>y\<close>; \<open>int(y)\<close> is the integer
  quotient of \<open>p * d\<close> by 1000, as for the exact product with \<open>p / 1000\<close>.
\<close>

lemma is_double_int: "\<bar>n\<bar> < 2 ^ 53 \<Longrightarrow> is_double (of_int n)"
  unfolding is_double_def by (intro exI [of _ n] exI [of _ 0]) simp

lemma is_double_scaled:
  assumes "\<bar>m\<bar> < 2 ^ 53"
  shows "is_double (real_of_int m / 2 ^ 32)"
proof -
  have "(2::real) powr of_int (- 32) = 1 / 2 ^ 32"
    by (simp add: powr_minus_divide)
  then have "real_of_int m / 2 ^ 32 = of_int m * 2 powr of_int (- 32)" by simp
  with assms show ?thesis unfolding is_double_def by blast
qed

lemma float_product_truncation:
  fixes d p :: int and c y :: real
  assumes d: "0 \<le> d" "d \<le> 3000000"
    and p: "0 \<le> p" "p \<le> 500"
    and c: "of_int p / 1000 \<le> c" "c \<le> of_int p / 1000 + 1 / 2 ^ 55"
    and y: "nearest_double (of_int d * c) y"
  shows "float_to_int y = p * d div 1000"
proof -
  define x where "x = of_int d * c"
  define n where "n = p * d div 1000"
  have n0: "0 \<le> n" using d p by (simp add: n_def pos_imp_zdiv_nonneg_iff)
  have nb: "1000 * n \<le> p * d" "p * d < 1000 * n + 1000"
    unfolding n_def by (rule div_bounds, simp)+
  have pd: "p * d \<le> 500 * 3000000" using d p by (intro mult_mono) auto
  have "(of_int (1000 * n) :: real) \<le> of_int (p * d)" using nb(1) by (simp only: of_int_le_iff)
  then have rn: "1000 * real_of_int n \<le> real_of_int p * real_of_int d" by simp
  have lower: "of_int n \<le> x"
  proof -
    from rn have "real_of_int n \<le> of_int d * (of_int p / 1000)" by (simp add: field_simps)
    also have "\<dots> \<le> of_int d * c" using c(1) d(1) by (intro mult_left_mono) auto
    finally show ?thesis by (simp add: x_def)
  qed
  have upper: "x \<le> of_int n + 999 / 1000 + 3000000 / 2 ^ 55"
  proof -
    have "x \<le> of_int d * (of_int p / 1000 + 1 / 2 ^ 55)"
      unfolding x_def using c(2) d(1) by (intro mult_left_mono) auto
    also have "\<dots> = of_int (p * d) / 1000 + of_int d / 2 ^ 55" by (simp add: algebra_simps)
    also have "of_int (p * d) / 1000 \<le> (of_int n + 999 / 1000 :: real)"
    proof -
      from nb(2) have "p * d \<le> 1000 * n + 999" by simp
      then have "(of_int (p * d) :: real) \<le> of_int (1000 * n + 999)" by (simp only: of_int_le_iff)
      then show ?thesis by simp
    qed
    also have "(of_int d :: real) / 2 ^ 55 \<le> 3000000 / 2 ^ 55"
      using d(2) by (simp add: divide_right_mono)
    finally show ?thesis by simp
  qed
  have xb: "0 \<le> x" "x < 2 ^ 21"
  proof -
    from lower n0 show "0 \<le> x" by simp
    have "(of_int (p * d) :: real) \<le> of_int (500 * 3000000)" using pd by (simp only: of_int_le_iff)
    with rn have "real_of_int n \<le> 1500000" by simp
    with upper show "x < 2 ^ 21" by simp
  qed
  from y have yd: "is_double y" and near: "\<And>z. is_double z \<Longrightarrow> \<bar>x - y\<bar> \<le> \<bar>x - z\<bar>"
    by (simp_all add: nearest_double_def x_def)
  have "\<bar>n\<bar> < 2 ^ 53"
  proof -
    have "1000 * n \<le> 500 * 3000000" using nb(1) pd by linarith
    with n0 show ?thesis by simp
  qed
  from near [OF is_double_int [OF this]] lower have y_lower: "of_int n \<le> y" by linarith
  define m where "m = \<lfloor>x * 2 ^ 32\<rfloor>"
  have mb: "of_int m \<le> x * 2 ^ 32" "x * 2 ^ 32 < of_int m + 1"
    unfolding m_def by linarith+
  have "\<bar>m\<bar> < 2 ^ 53"
  proof -
    have "0 \<le> x * 2 ^ 32" using xb(1) by simp
    then have "0 \<le> m" by (simp add: m_def)
    moreover have "x * 2 ^ 32 < 2 ^ 21 * 2 ^ 32" using xb(2) by simp
    then have "(of_int m :: real) < 2 ^ 53" using mb(1) by simp
    then have "m < 2 ^ 53" by (metis of_int_less_iff of_int_numeral of_int_power)
    ultimately show ?thesis by simp
  qed
  from near [OF is_double_scaled [OF this]]
  have "\<bar>x - y\<bar> \<le> \<bar>x - of_int m / 2 ^ 32\<bar>" .
  moreover have "0 \<le> x - of_int m / 2 ^ 32" "x - of_int m / 2 ^ 32 < 1 / 2 ^ 32"
    using mb by (simp_all add: field_simps)
  ultimately have "y < x + 1 / 2 ^ 32" by linarith
  with upper have "y < of_int n + 999 / 1000 + 3000000 / 2 ^ 55 + 1 / 2 ^ 32" by linarith
  also have "\<dots> < of_int n + 1" by simp
  finally have y_upper: "y < of_int n + 1" .
  from y_lower y_upper have "\<lfloor>y\<rfloor> = n" by linarith
  moreover from y_lower n0 have "0 \<le> y" by linarith
  ultimately show ?thesis by (simp add: float_to_int_def n_def)
qed


lemma two_powr_int:
  fixes e :: int and k :: nat
  assumes "- int k \<le> e"
  shows "(2::real) powr of_int e = 2 ^ nat (e + int k) / 2 ^ k"
proof -
  have "real_of_int e = real (nat (e + int k)) - real k" using assms by simp
  then have "(2::real) powr of_int e = 2 powr (real (nat (e + int k)) - real k)"
    by (rule arg_cong)
  also have "\<dots> = 2 powr real (nat (e + int k)) / 2 powr real k" by (rule powr_diff)
  also have "\<dots> = 2 ^ nat (e + int k) / 2 ^ k" by (simp add: powr_realpow)
  finally show ?thesis .
qed

lemma double_literal:
  fixes M :: int and k :: nat and a z :: real
  assumes M: "2 ^ 52 < M" "M < 2 ^ 53"
    and a: "\<bar>a - of_int M / 2 ^ k\<bar> * 2 ^ (k + 1) < 1"
  shows "is_double (of_int M / 2 ^ k)"
    and "is_double z \<Longrightarrow> z \<noteq> of_int M / 2 ^ k \<Longrightarrow> \<bar>a - of_int M / 2 ^ k\<bar> < \<bar>a - z\<bar>"
proof -
  define c :: real where "c = of_int M / 2 ^ k"
  have "(2::real) powr of_int (- int k) = 2 ^ nat 0 / 2 ^ k"
    using two_powr_int [of k "- int k"] by simp
  then have "c = of_int M * 2 powr of_int (- int k)" by (simp add: c_def)
  moreover have "\<bar>M\<bar> < 2 ^ 53" using M by simp
  ultimately show "is_double (of_int M / 2 ^ k)" unfolding is_double_def c_def by blast
  have near: "\<bar>a - c\<bar> < 1 / 2 ^ (k + 1)"
    using a unfolding c_def by (simp only: pos_less_divide_eq zero_less_power zero_less_numeral)
  assume "is_double z" and ne: "z \<noteq> of_int M / 2 ^ k"
  then obtain m e :: int where m: "\<bar>m\<bar> < 2 ^ 53" and z: "z = of_int m * 2 powr of_int e"
    unfolding is_double_def by blast
  have far: "1 / 2 ^ k \<le> \<bar>z - c\<bar>"
  proof (cases "- int k \<le> e")
    case True
    define K where "K = m * 2 ^ nat (e + int k)"
    have "z = of_int m * (2 ^ nat (e + int k) / 2 ^ k)"
      unfolding z by (simp only: two_powr_int [OF True])
    then have zK: "z = of_int K / 2 ^ k" by (simp add: K_def)
    with ne have "K \<noteq> M" by auto
    then have "1 \<le> \<bar>K - M\<bar>" by simp
    then have "real_of_int 1 \<le> real_of_int \<bar>K - M\<bar>" by (simp only: of_int_le_iff)
    then have "1 \<le> \<bar>real_of_int K - real_of_int M\<bar>" by simp
    then have "1 / 2 ^ k \<le> \<bar>real_of_int K - real_of_int M\<bar> / 2 ^ k"
      by (simp only: divide_right_mono zero_le_power zero_le_numeral)
    moreover have "z - c = (of_int K - of_int M) / 2 ^ k"
      by (simp add: zK c_def diff_divide_distrib)
    ultimately show ?thesis by simp
  next
    case False
    then have "real_of_int e \<le> - real (k + 1)" by simp
    then have "(2::real) powr of_int e \<le> 2 powr (- real (k + 1))" by (simp only: powr_mono)
    also have "\<dots> = 1 / 2 powr real (k + 1)" by (rule powr_minus_divide)
    also have "\<dots> = 1 / 2 ^ (k + 1)" by (simp only: powr_realpow zero_less_numeral)
    finally have small: "(2::real) powr of_int e \<le> 1 / 2 ^ (k + 1)" .
    have "m \<le> 2 ^ 53" using m by simp
    then have "real_of_int m \<le> real_of_int (2 ^ 53)" by (simp only: of_int_le_iff)
    then have "real_of_int m \<le> 2 ^ 53" by simp
    then have "z \<le> 2 ^ 53 * 2 powr of_int e" unfolding z by (simp add: mult_right_mono)
    also have "\<dots> \<le> 2 ^ 53 * (1 / 2 ^ (k + 1))"
      using small by (rule mult_left_mono) simp
    also have "\<dots> = 2 ^ 52 / 2 ^ k" by simp
    finally have zb: "z \<le> 2 ^ 52 / 2 ^ k" .
    have "2 ^ 52 + 1 \<le> M" using M(1) by simp
    then have "real_of_int (2 ^ 52 + 1) \<le> real_of_int M" by (simp only: of_int_le_iff)
    then have "2 ^ 52 + 1 \<le> real_of_int M" by simp
    then have "(2 ^ 52 + 1) / 2 ^ k \<le> real_of_int M / 2 ^ k"
      by (simp only: divide_right_mono zero_le_power zero_le_numeral)
    then have "2 ^ 52 / 2 ^ k + 1 / 2 ^ k \<le> c" by (simp only: c_def add_divide_distrib)
    with zb show ?thesis by linarith
  qed
  have "1 / (2::real) ^ k = 2 * (1 / 2 ^ (k + 1))" by simp
  with far near have "\<bar>a - c\<bar> < \<bar>a - z\<bar>" by linarith
  then show "\<bar>a - of_int M / 2 ^ k\<bar> < \<bar>a - z\<bar>" by (simp only: c_def)
qed

lemma nearest_double_literal:
  fixes M :: int and k :: nat and a c :: real
  assumes M: "2 ^ 52 < M" "M < 2 ^ 53"
    and a: "\<bar>a - of_int M / 2 ^ k\<bar> * 2 ^ (k + 1) < 1"
  shows "nearest_double a c \<longleftrightarrow> c = of_int M / 2 ^ k"
proof
  note lit = double_literal [OF M a]
  assume c: "nearest_double a c"
  show "c = of_int M / 2 ^ k"
  proof (rule ccontr)
    assume ne: "c \<noteq> of_int M / 2 ^ k"
    from c have "is_double c" by (simp only: nearest_double_def)
    from lit(2) [OF this ne] have "\<bar>a - of_int M / 2 ^ k\<bar> < \<bar>a - c\<bar>" .
    moreover from c lit(1) have "\<bar>a - c\<bar> \<le> \<bar>a - of_int M / 2 ^ k\<bar>"
      unfolding nearest_double_def by blast
    ultimately show False by simp
  qed
next
  note lit = double_literal [OF M a]
  assume c: "c = of_int M / 2 ^ k"
  have "\<bar>a - of_int M / 2 ^ k\<bar> \<le> \<bar>a - z\<bar>" if "is_double z" for z
  proof (cases "z = of_int M / 2 ^ k")
    case True
    then show ?thesis by simp
  next
    case False
    with lit(2) [OF that] show ?thesis by simp
  qed
  with lit(1) show "nearest_double a c" unfolding nearest_double_def c by blast
qed

lemma nearest_double_half: "nearest_double (1 / 2) c \<longleftrightarrow> c = 1 / 2"
proof -
  have "(2::real) powr of_int (- 1) = 1 / 2" by (simp add: powr_minus_divide)
  then have "(1 / 2 :: real) = of_int 1 * 2 powr of_int (- 1)" by simp
  moreover have "\<bar>1::int\<bar> < 2 ^ 53" by simp
  ultimately have half: "is_double (1 / 2)" unfolding is_double_def by blast
  show ?thesis
  proof
    assume "nearest_double (1 / 2) c"
    with half have "\<bar>1 / 2 - c\<bar> \<le> \<bar>1 / 2 - 1 / 2\<bar>" unfolding nearest_double_def by blast
    then show "c = 1 / 2" by simp
  next
    assume c: "c = 1 / 2"
    from half show "nearest_double (1 / 2) c" unfolding c nearest_double_def by simp
  qed
qed

lemma nearest_double_0_167: "nearest_double (167 / 1000) c \<longleftrightarrow> c = double_0_167"
proof -
  have M: "(2::int) ^ 52 < 6016809102166983" "(6016809102166983::int) < 2 ^ 53" by simp_all
  have a: "\<bar>167 / 1000 - real_of_int 6016809102166983 / 2 ^ 55\<bar> * 2 ^ (55 + 1) < 1" by simp
  from nearest_double_literal [OF M a] show ?thesis by (simp add: double_0_167_def)
qed

lemma nearest_double_0_333: "nearest_double (333 / 1000) c \<longleftrightarrow> c = double_0_333"
proof -
  have M: "(2::int) ^ 52 < 5998794703657501" "(5998794703657501::int) < 2 ^ 53" by simp_all
  have a: "\<bar>333 / 1000 - real_of_int 5998794703657501 / 2 ^ 54\<bar> * 2 ^ (54 + 1) < 1" by simp
  from nearest_double_literal [OF M a] show ?thesis by (simp add: double_0_333_def)
qed

lemma nasal_durations_double:
  fixes d :: int
  assumes d: "0 \<le> d" "d \<le> 3000000"
  shows "nearest_double (1 / 2) c \<Longrightarrow> nearest_double (of_int d * c) y \<Longrightarrow>
           float_to_int y = py_int (PInt d * PFloat (1 / 2))"
    and "nearest_double (167 / 1000) c \<Longrightarrow> nearest_double (of_int d * c) y \<Longrightarrow>
           float_to_int y = py_int (PInt d * PFloat (167 / 1000))"
    and "nearest_double (333 / 1000) c \<Longrightarrow> nearest_double (of_int d * c) y \<Longrightarrow>
           float_to_int y = py_int (PInt d * PFloat (333 / 1000))"
proof -
  assume "nearest_double (1 / 2) c" and y: "nearest_double (of_int d * c) y"
  then have c: "c = 1 / 2" by (simp only: nearest_double_half)
  have "float_to_int y = 500 * d div 1000"
    by (rule float_product_truncation [OF d _ _ _ _ y]) (simp_all add: c)
  also have "\<dots> = d div 2" by simp
  finally show "float_to_int y = py_int (PInt d * PFloat (1 / 2))"
    by (simp only: nasal_durations [OF d(1)])
next
  assume "nearest_double (167 / 1000) c" and y: "nearest_double (of_int d * c) y"
  then have c: "c = double_0_167" by (simp only: nearest_double_0_167)
  have "float_to_int y = 167 * d div 1000"
    by (rule float_product_truncation [OF d _ _ _ _ y]) (simp_all add: c double_0_167_def)
  then show "float_to_int y = py_int (PInt d * PFloat (167 / 1000))"
    by (simp only: nasal_durations [OF d(1)])
next
  assume "nearest_double (333 / 1000) c" and y: "nearest_double (of_int d * c) y"
  then have c: "c = double_0_333" by (simp only: nearest_double_0_333)
  have "float_to_int y = 333 * d div 1000"
    by (rule float_product_truncation [OF d _ _ _ _ y]) (simp_all add: c double_0_333_def)
  then show "float_to_int y = py_int (PInt d * PFloat (333 / 1000))"
    by (simp only: nasal_durations [OF d(1)])
qed

text \<open>
  Claim C2, as amended. For a vowel that is not a nasal and whose next phoneme in the word
  is a nasal, \<open>nasalizeVowel\<close> replaces the base parameter-set, of a duration \<open>d\<close> from 0
  to 3000000 ms, by exactly three: the values of the vowel, the 2:1 blend of vowel and
  nasal, and the 1:2 blend, with the durations \<open>int(d * 0.5)\<close>, \<open>int(d * 0.167)\<close> and
  \<open>int(d * 0.333)\<close>. Each duration is truncated, so the three sum to at most \<open>d\<close> and to
  at least \<open>d - 2\<close>. The bound on \<open>d\<close> keeps the statement where the float products of
  the code truncate to the same integers as the exact products.
\<close>

theorem nasalizeVowel_splits:
  assumes vowel: "ipa_character \<in> VOWELS tbl" "ipa_character \<notin> NASALS tbl"
    and nasal: "following_phonemes = nasal # others" "nasal \<in> NASALS tbl"
      "IPA_PARAMETERS tbl nasal = Some nasal_values" "length nasal_values = 33"
    and frame: "length vowel = 33" "vowel ! 32 = PInt d" "0 \<le> d" "d \<le> 3000000"
  shows "\<exists>lead_in lead_out.
           nasalizeVowel tbl ipa_character following_phonemes (vowel # rest) =
             Inr ((take 32 vowel @ [PInt (d div 2)]) #
                  (lead_in @ [PInt (167 * d div 1000)]) #
                  (lead_out @ [PInt (333 * d div 1000)]) # rest) \<and>
           length lead_in = 32 \<and> length lead_out = 32 \<and>
           (\<forall>i<32. lead_in ! i = (vowel ! i * PInt 2 + nasal_values ! i) div PInt 3 \<and>
                   lead_out ! i = (vowel ! i + nasal_values ! i * PInt 2) div PInt 3) \<and>
           d - 2 \<le> d div 2 + 167 * d div 1000 + 333 * d div 1000 \<and>
           d div 2 + 167 * d div 1000 + 333 * d div 1000 \<le> d"
proof -
  let ?pairs = "zip (take 32 vowel) (take 32 nasal_values)"
  let ?lead_in = "map (\<lambda>(v, n). (v * PInt 2 + n) div PInt 3) ?pairs"
  let ?lead_out = "map (\<lambda>(v, n). (v + n * PInt 2) div PInt 3) ?pairs"
  have eq: "nasalizeVowel tbl ipa_character following_phonemes (vowel # rest) =
             Inr ((take 32 vowel @ [PInt (d div 2)]) #
                  (?lead_in @ [PInt (167 * d div 1000)]) #
                  (?lead_out @ [PInt (333 * d div 1000)]) # rest)"
    using vowel nasal frame
    by (simp add: nasalizeVowel_def Let_def nasal_durations del: times_pynum.simps)
  have len: "length ?lead_in = 32" "length ?lead_out = 32"
    using nasal(4) frame(1) by simp_all
  have nth: "?lead_in ! i = (vowel ! i * PInt 2 + nasal_values ! i) div PInt 3 \<and>
             ?lead_out ! i = (vowel ! i + nasal_values ! i * PInt 2) div PInt 3" if "i < 32" for i
    using that nasal(4) frame(1) by simp
  from eq len nth nasal_durations_sum [of d] show ?thesis by blast
qed

subsection \<open>The concrete table\<close>

lemma demo_table_lookup:
  "demo_table u_a = Some (demo_values 1 @ [PInt 100])"
  "demo_table u_n = Some (demo_values 4 @ [PInt 80])"
  "demo_table u_t = Some (demo_values 7 @ [PInt 60])"
  "demo_table u_h = Some (demo_values 10 @ [PInt 40])"
  "demo_table u_glottal_stop = Some (demo_values 13 @ [PInt 20])"
  by (simp_all add: demo_table_def u_a_def u_n_def u_t_def u_h_def u_glottal_stop_def)

lemma demo_ipa_simps:
  "IPA_PARAMETERS demo_ipa = demo_table"
  "IPA_DATA demo_ipa = demo_table"
  "VOWELS demo_ipa = {u_a}"
  "NASALS demo_ipa = {u_n}"
  "STOPS demo_ipa = {u_t}"
  "reduceIPAClusters demo_ipa = map (\<lambda>c. [c])"
  by (simp_all add: demo_ipa_def)

lemma demo_chars_distinct:
  "u_a \<noteq> u_n" "u_a \<noteq> u_t" "u_n \<noteq> u_a" "u_n \<noteq> u_t" "u_t \<noteq> u_a" "u_t \<noteq> u_n"
  by (simp_all add: u_a_def u_n_def u_t_def)

lemma length_demo_values: "length (demo_values av) = 32"
  by (simp add: demo_values_def)

lemma demo_frame_parts:
  "(demo_values av @ [d]) ! 32 = d"
  "take 32 (demo_values av @ [d]) = demo_values av"
  "length (demo_values av @ [d]) = 33"
  by (simp_all add: length_demo_values nth_append)

lemma demo_blend_2_1:
  "map (\<lambda>(v, n). (v * PInt 2 + n) div PInt 3) (zip (demo_values x) (demo_values y))
     = demo_values ((x * 2 + y) div 3)"
  by (simp add: demo_values_def numeral_eq_Suc)

lemma demo_blend_1_2:
  "map (\<lambda>(v, n). (v + n * PInt 2) div PInt 3) (zip (demo_values x) (demo_values y))
     = demo_values ((x + y * 2) div 3)"
  by (simp add: demo_values_def numeral_eq_Suc)

lemma demo_blend_1_1:
  "map (\<lambda>(v, c). (c + v) div PInt 2) (zip (demo_values x) (demo_values y @ [d]))
     = demo_values ((y + x) div 2)"
  by (simp add: demo_values_def numeral_eq_Suc)

text \<open>
  The claim C2 as stated fails: for the duration 100 the three durations are 50, 16 and
  33, which sum to 99.
\<close>

theorem nasalizeVowel_sum_counterexample:
  "nasalizeVowel demo_ipa u_a [u_n] [demo_values 1 @ [PInt 100]] =
     Inr [demo_values 1 @ [PInt 50], demo_values 2 @ [PInt 16], demo_values 3 @ [PInt 33]] \<and>
   (50::int) + 16 + 33 \<noteq> 100"
  by (simp add: nasalizeVowel_def demo_ipa_simps demo_table_lookup demo_chars_distinct
      demo_frame_parts length_demo_values demo_blend_2_1 demo_blend_1_2 Let_def float_to_int_def)

theorem nasalizeVowel_splits_witness:
  "u_a \<in> VOWELS demo_ipa \<and> u_a \<notin> NASALS demo_ipa \<and> u_n \<in> NASALS demo_ipa \<and>
   IPA_PARAMETERS demo_ipa u_n = Some (demo_values 4 @ [PInt 80]) \<and>
   length (demo_values 4 @ [PInt 80]) = 33 \<and> length (demo_values 1 @ [PInt 100]) = 33 \<and>
   (\<exists>lead_in lead_out.
      nasalizeVowel demo_ipa u_a [u_n] [demo_values 1 @ [PInt 100]] =
        Inr [demo_values 1 @ [PInt 50], lead_in @ [PInt 16], lead_out @ [PInt 33]]) \<and>
   (100::int) - 2 \<le> 50 + 16 + 33 \<and> (50::int) + 16 + 33 \<le> 100"
proof -
  have h: "u_a \<in> VOWELS demo_ipa" "u_a \<notin> NASALS demo_ipa" "[u_n] = u_n # []"
    "u_n \<in> NASALS demo_ipa" "IPA_PARAMETERS demo_ipa u_n = Some (demo_values 4 @ [PInt 80])"
    "length (demo_values 4 @ [PInt 80]) = 33" "length (demo_values 1 @ [PInt 100]) = 33"
    "(demo_values 1 @ [PInt 100]) ! 32 = PInt 100" "(0::int) \<le> 100" "(100::int) \<le> 3000000"
    by (simp_all add: demo_ipa_simps demo_table_lookup demo_chars_distinct demo_frame_parts
        length_demo_values)
  from nasalizeVowel_splits [OF h, of "[]"] h show ?thesis
    by (simp add: demo_frame_parts length_demo_values) blast
qed

text \<open>
  \<open>bridgeWords\<close> on a word-initial vowel: after a word that ends in a vowel the 50 ms
  parameter-set made from \<open>h\<close> is put at the end of the list, after the parameter-sets of
  the current phoneme; after a word that ends in a consonant the 50 ms average is put at
  the front.
\<close>

lemma bridgeWords_vowel:
  assumes "ipa_character \<in> VOWELS tbl" and "previous_words \<noteq> []"
    and "last previous_words \<noteq> []" and "[last (last previous_words)] \<in> VOWELS tbl"
    and "IPA_PARAMETERS tbl u_h = Some h"
  shows "bridgeWords tbl ipa_character [] following_phonemes previous_words parameters_list =
           Inr (parameters_list @ [take 32 h @ [PInt 50]])"
  using assms by (simp add: bridgeWords_def Let_def)

lemma bridgeWords_consonant:
  assumes "ipa_character \<in> VOWELS tbl" and "previous_words \<noteq> []"
    and "last previous_words \<noteq> []" and "[last (last previous_words)] \<notin> VOWELS tbl"
    and "IPA_PARAMETERS tbl [last (last previous_words)] = Some consonant"
  shows "bridgeWords tbl ipa_character [] following_phonemes previous_words (first # rest) =
           Inr ((map (\<lambda>(v, c). (c + v) div PInt 2) (zip (take 32 first) consonant) @ [PInt 50])
                # first # rest)"
  using assms by (simp add: bridgeWords_def Let_def py_take_def)

text \<open>
  Claim C3 says that the 50 ms pause made from \<open>h\<close> is inserted before the current
  parameter-set when the previous word ends in a vowel. On the word-initial vowel \<open>a\<close>
  after the word \<open>a\<close> the code returns the current parameter-set first and the pause
  after it.
\<close>

theorem bridgeWords_vowel_appends:
  "bridgeWords demo_ipa u_a [] [] [u_a] [demo_values 1 @ [PInt 100]] =
     Inr [demo_values 1 @ [PInt 100], demo_values 10 @ [PInt 50]]"
proof -
  have l: "[last u_a] = u_a" "u_a \<noteq> []" by (simp_all add: u_a_def)
  show ?thesis
    by (simp add: bridgeWords_def Let_def l demo_ipa_simps demo_table_lookup demo_frame_parts
        length_demo_values)
qed

lemma bridgeWords_consonant_inserts:
  "bridgeWords demo_ipa u_a [] [] [u_t] [demo_values 1 @ [PInt 100]] =
     Inr [demo_values 4 @ [PInt 50], demo_values 1 @ [PInt 100]]"
proof -
  have l: "[last u_t] = u_t" "u_t \<noteq> []" "take 32 u_t = u_t" by (simp_all add: u_t_def)
  show ?thesis
    by (simp add: bridgeWords_def Let_def l py_take_def demo_ipa_simps demo_table_lookup
        demo_chars_distinct demo_frame_parts length_demo_values demo_blend_1_1)
qed

lemma py_max_trim:
  "py_max (PInt 5) (PInt d - PInt 15) = PInt (max 5 (d - 15))"
  "py_max (PInt 5) (PInt (d - 15)) = PInt (max 5 (d - 15))"
  by (simp_all add: py_max_def max_def)

lemma shape_lead_in_eq:
  assumes "length first = 33"
    and "ipa_character \<notin> STOPS tbl \<longrightarrow> IPA_PARAMETERS tbl (last preceding_phonemes) = Some prev"
    and "ipa_character \<in> STOPS tbl \<longrightarrow> IPA_PARAMETERS tbl u_glottal_stop = Some glottal"
  shows "shape_lead_in tbl ipa_character preceding_phonemes (first # rest) =
           Inr (((if ipa_character \<in> STOPS tbl then take 32 glottal
                  else map (\<lambda>(c, p). (c * PInt 2 + p) div PInt 3)
                         (zip (take 32 first) (take 32 prev))) @ [PInt 15]) #
                (take 32 first @ [py_max (PInt 5) (first ! 32 - PInt 15)]) # rest)"
  using assms by (simp add: shape_lead_in_def Let_def)

lemma shape_lead_out_eq:
  assumes "length final = 33"
    and "hd following_phonemes \<notin> STOPS tbl \<longrightarrow> IPA_PARAMETERS tbl (hd following_phonemes) = Some nxt"
    and "hd following_phonemes \<in> STOPS tbl \<longrightarrow> IPA_PARAMETERS tbl u_h = Some h"
  shows "shape_lead_out tbl following_phonemes (rest @ [final]) =
           Inr (rest @
                [take 32 final @ [py_max (PInt 5) (final ! 32 - PInt 15)],
                 (if hd following_phonemes \<in> STOPS tbl then take 32 h
                  else map (\<lambda>(c, p). (c * PInt 2 + p) div PInt 3)
                         (zip (take 32 final) (take 32 nxt))) @ [PInt 15]])"
  using assms by (simp add: shape_lead_out_def Let_def)


text \<open>
  Claim C8. With every parameter-set of 33 fields and every phoneme read in the table:
  when the phoneme has a preceding phoneme in its word, \<open>shapeContours\<close> takes 15 ms off
  the duration of the first parameter-set (not below 5 ms) and puts before it a 15 ms
  parameter-set, the 2:1 blend of the first parameter-set with the preceding phoneme, or
  the values of the glottal stop when the current phoneme is a stop; when it has a
  following phoneme, it shortens the last parameter-set in the same way and puts after
  it a 15 ms parameter-set, the 2:1 blend with the following phoneme, or the values of
  \<open>h\<close> when the following phoneme is a stop; and it leaves the end alone when the phoneme
  is a vowel followed by a nasal.
\<close>

theorem shapeContours_shapes:
  fixes tbl :: ipa and ipa_character :: ustring
    and preceding_phonemes following_phonemes :: "ustring list"
    and prev nxt glottal h first :: frame and rest :: "frame list"
  defines "trim \<equiv> \<lambda>f. take 32 f @ [py_max (PInt 5) (f ! 32 - PInt 15)]"
    and "blend \<equiv> \<lambda>f other. map (\<lambda>(c, p). (c * PInt 2 + p) div PInt 3)
                                 (zip (take 32 f) (take 32 other)) @ [PInt 15]"
  defines "lead \<equiv> if ipa_character \<in> STOPS tbl then take 32 glottal @ [PInt 15]
                  else blend first prev"
    and "tail \<equiv> \<lambda>f. if hd following_phonemes \<in> STOPS tbl then take 32 h @ [PInt 15]
                       else blend f nxt"
    and "skip \<equiv> (following_phonemes = [] \<or>
                   (ipa_character \<in> VOWELS tbl \<and> hd following_phonemes \<in> NASALS tbl))"
  assumes lookups:
      "IPA_PARAMETERS tbl u_glottal_stop = Some glottal"
      "IPA_PARAMETERS tbl u_h = Some h"
      "preceding_phonemes \<noteq> [] \<longrightarrow> IPA_PARAMETERS tbl (last preceding_phonemes) = Some prev"
      "following_phonemes \<noteq> [] \<longrightarrow> IPA_PARAMETERS tbl (hd following_phonemes) = Some nxt"
    and len: "\<forall>f\<in>set (first # rest). length f = 33"
  shows "(preceding_phonemes \<noteq> [] \<and> skip \<longrightarrow>
            shapeContours tbl ipa_character preceding_phonemes following_phonemes (first # rest) =
              Inr (lead # trim first # rest)) \<and>
         (preceding_phonemes = [] \<and> \<not> skip \<longrightarrow>
            shapeContours tbl ipa_character preceding_phonemes following_phonemes (first # rest) =
              Inr (butlast (first # rest) @
                   [trim (last (first # rest)), tail (last (first # rest))])) \<and>
         (preceding_phonemes \<noteq> [] \<and> \<not> skip \<longrightarrow>
            shapeContours tbl ipa_character preceding_phonemes following_phonemes (first # rest) =
              Inr (lead # butlast (trim first # rest) @
                   [trim (last (trim first # rest)), tail (last (trim first # rest))])) \<and>
         (preceding_phonemes = [] \<and> skip \<longrightarrow>
            shapeContours tbl ipa_character preceding_phonemes following_phonemes (first # rest) =
              Inr (first # rest)) \<and>
         (\<forall>f d. f ! 32 = PInt d \<longrightarrow> trim f = take 32 f @ [PInt (max 5 (d - 15))])"
proof -
  have lead_eq: "shape_lead_in tbl ipa_character preceding_phonemes (first # rest) =
                   Inr (lead # trim first # rest)" if "preceding_phonemes \<noteq> []"
    using that lookups len
    by (simp add: shape_lead_in_eq [where prev = prev and glottal = glottal]
        lead_def trim_def blend_def)
  have tail_eq: "shape_lead_out tbl following_phonemes fs =
                   Inr (butlast fs @ [trim (last fs), tail (last fs)])"
    if "following_phonemes \<noteq> []" "fs \<noteq> []" "length (last fs) = 33" for fs
  proof -
    from that(2) have fs: "fs = butlast fs @ [last fs]" by simp
    have "shape_lead_out tbl following_phonemes (butlast fs @ [last fs]) =
            Inr (butlast fs @ [trim (last fs), tail (last fs)])"
      using that(1,3) lookups
      by (simp add: shape_lead_out_eq [where nxt = nxt and h = h] tail_def trim_def blend_def)
    with fs show ?thesis by simp
  qed
  have len_trim: "length (trim first) = 33" using len by (simp add: trim_def)
  have last_len: "length (last (first # rest)) = 33" using len by (metis last_in_set list.discI)
  have last_len': "length (last (trim first # rest)) = 33"
  proof -
    have "last (trim first # rest) \<in> set (trim first # rest)" by (rule last_in_set) simp
    with len len_trim show ?thesis by auto
  qed
  have c1: "preceding_phonemes \<noteq> [] \<and> skip \<longrightarrow>
            shapeContours tbl ipa_character preceding_phonemes following_phonemes (first # rest) =
              Inr (lead # trim first # rest)"
    using lead_eq by (auto simp: shapeContours_def skip_def)
  have c2: "preceding_phonemes = [] \<and> \<not> skip \<longrightarrow>
            shapeContours tbl ipa_character preceding_phonemes following_phonemes (first # rest) =
              Inr (butlast (first # rest) @
                   [trim (last (first # rest)), tail (last (first # rest))])"
    using tail_eq [of "first # rest"] last_len by (auto simp: shapeContours_def skip_def)
  have c3: "preceding_phonemes \<noteq> [] \<and> \<not> skip \<longrightarrow>
            shapeContours tbl ipa_character preceding_phonemes following_phonemes (first # rest) =
              Inr (lead # butlast (trim first # rest) @
                   [trim (last (trim first # rest)), tail (last (trim first # rest))])"
    using lead_eq tail_eq [of "lead # trim first # rest"] last_len'
    by (auto simp: shapeContours_def skip_def)
  have c4: "preceding_phonemes = [] \<and> skip \<longrightarrow>
            shapeContours tbl ipa_character preceding_phonemes following_phonemes (first # rest) =
              Inr (first # rest)"
    by (auto simp: shapeContours_def skip_def)
  have c5: "\<forall>f d. f ! 32 = PInt d \<longrightarrow> trim f = take 32 f @ [PInt (max 5 (d - 15))]"
    by (simp add: trim_def py_max_trim)
  from c1 c2 c3 c4 c5 show ?thesis by blast
qed



theorem shapeContours_shapes_witness:
  "IPA_PARAMETERS demo_ipa u_glottal_stop = Some (demo_values 13 @ [PInt 20]) \<and>
   IPA_PARAMETERS demo_ipa u_h = Some (demo_values 10 @ [PInt 40]) \<and>
   IPA_PARAMETERS demo_ipa (last [u_n]) = Some (demo_values 4 @ [PInt 80]) \<and>
   IPA_PARAMETERS demo_ipa (hd [u_t]) = Some (demo_values 7 @ [PInt 60]) \<and>
   length (demo_values 1 @ [PInt 100]) = 33 \<and>
   shapeContours demo_ipa u_a [u_n] [u_t] [demo_values 1 @ [PInt 100]] =
     Inr [demo_values 2 @ [PInt 15], demo_values 1 @ [PInt 70], demo_values 10 @ [PInt 15]] \<and>
   shapeContours demo_ipa u_t [u_n] [] [demo_values 7 @ [PInt 12]] =
     Inr [demo_values 13 @ [PInt 15], demo_values 7 @ [PInt 5]]"
proof -
  have l: "IPA_PARAMETERS demo_ipa u_glottal_stop = Some (demo_values 13 @ [PInt 20])"
    "IPA_PARAMETERS demo_ipa u_h = Some (demo_values 10 @ [PInt 40])"
    "[u_n] \<noteq> [] \<longrightarrow> IPA_PARAMETERS demo_ipa (last [u_n]) = Some (demo_values 4 @ [PInt 80])"
    by (simp_all add: demo_ipa_simps demo_table_lookup)
  have f: "[u_t] \<noteq> [] \<longrightarrow> IPA_PARAMETERS demo_ipa (hd [u_t]) = Some (demo_values 7 @ [PInt 60])"
    and e: "[] \<noteq> [] \<longrightarrow> IPA_PARAMETERS demo_ipa (hd []) = Some []"
    by (simp_all add: demo_ipa_simps demo_table_lookup)
  have n1: "\<forall>f\<in>set ((demo_values 1 @ [PInt 100]) # []). length f = 33"
    and n2: "\<forall>f\<in>set ((demo_values 7 @ [PInt 12]) # []). length f = 33"
    by (simp_all add: length_demo_values)
  from shapeContours_shapes [OF l f n1, of u_a] shapeContours_shapes [OF l e n2, of u_t]
  show ?thesis
    by (simp add: demo_ipa_simps demo_table_lookup demo_chars_distinct demo_frame_parts
        length_demo_values demo_blend_2_1 py_max_def)
qed

section \<open>Properties of the language rules\<close>

lemma apply_rule_functions_append:
  "apply_rule_functions (fs @ gs) ctx transformed remaining st =
     (case apply_rule_functions fs ctx transformed remaining st of
        Inl e \<Rightarrow> Inl e
      | Inr st' \<Rightarrow> apply_rule_functions gs ctx transformed remaining st')"
proof (induction fs arbitrary: st)
  case Nil
  then show ?case by simp
next
  case (Cons f fs)
  obtain pre post m p where st: "st = (pre, post, m, p)" by (cases st) auto
  show ?case
    unfolding st using Cons.IH by (simp split: sum.splits prod.splits)
qed

lemma apply_rule_functions_extends:
  assumes "apply_rule_functions hs ctx transformed remaining (pre, post, m, p) =
             Inr (pre', post', m', p')"
  shows "\<exists>pre_h post_h. pre' = pre @ pre_h \<and> post' = post_h @ post"
  using assms
proof (induction hs arbitrary: pre post m p)
  case Nil
  then show ?case by simp
next
  case (Cons h hs)
  from Cons.prems obtain a b k q where
    h: "h ctx transformed remaining pre post p = Inr (a, b, k, q)"
    and rest: "apply_rule_functions hs ctx transformed remaining (pre @ a, b @ post, m * k, q) =
                 Inr (pre', post', m', p')"
    by (auto split: sum.splits prod.splits)
  from Cons.IH [OF rest] obtain pre_h post_h where
    "pre' = (pre @ a) @ pre_h" "post' = post_h @ (b @ post)" by blast
  then have "pre' = pre @ (a @ pre_h)" "post' = (post_h @ b) @ post" by simp_all
  then show ?case by blast
qed

lemma applyRules_loop_append:
  "applyRules_loop rs ctx c0 i (xs @ ys) st =
     (case applyRules_loop rs ctx c0 i xs st of
        Inl e \<Rightarrow> Inl e
      | Inr st' \<Rightarrow> applyRules_loop rs ctx c0 (i + int (length xs)) ys st')"
proof (induction xs arbitrary: i st)
  case Nil
  obtain tr ms where "st = (tr, ms)" by (cases st)
  then show ?case by simp
next
  case (Cons x xs)
  obtain tr ms where st: "st = (tr, ms)" by (cases st)
  show ?case
    unfolding st using Cons.IH
    by (simp split: sum.splits prod.splits add: ac_simps)
qed

lemma applyRules_loop_prefix:
  assumes "applyRules_loop rs ctx c0 i xs (tr, ms) = Inr (out, ms')"
  shows "\<exists>rest. out = tr @ rest"
  using assms
proof (induction xs arbitrary: i tr ms)
  case Nil
  then show ?case by simp
next
  case (Cons x xs)
  from Cons.prems obtain a b k q where
    rest: "applyRules_loop rs ctx c0 (i + 1) xs
             (tr @ a @ [q] @ b, ms @ replicate (length a + 1 + length b) k) = Inr (out, ms')"
    by (auto split: sum.splits prod.splits)
  from Cons.IH [OF rest] obtain rest' where "out = (tr @ a @ [q] @ b) @ rest'" by blast
  then have "out = tr @ (a @ [q] @ b @ rest')" by simp
  then show ?case by blast
qed

text \<open>
  Claim C4, as amended. Take any parameter-set of the list, at any position, with
  \<open>transformed_parameters\<close> the result of the loop on the parameter-sets before it, and any
  rule \<open>g\<close> of the chain, between the rules \<open>fs\<close> and \<open>hs\<close>. When the rules \<open>fs\<close> have put
  \<open>preceding_parameters\<close> before the current parameter-set and \<open>following_parameters\<close>
  after it, and \<open>g\<close> returns \<open>preceding_params\<close> and \<open>following_params\<close>, the output of
  \<open>applyRules\<close> holds, for this parameter-set, the prepends of \<open>fs\<close>, then those of \<open>g\<close>,
  then those of \<open>hs\<close>, then the parameter-set, then the appends of \<open>hs\<close>, then those of
  \<open>g\<close>, then those of \<open>fs\<close>. A later rule's additions are nearer the current
  parameter-set than an earlier rule's, before it and after it alike.
\<close>

theorem applyRules_accumulates:
  fixes before after :: "frame list" and parameters :: frame
  defines "remaining \<equiv> int (length (before @ parameters # after)) - 1 - int (length before)"
  assumes processed:
      "applyRules_loop (fs @ g # hs) ctx (int (length (before @ parameters # after)) - 1) 0
         before ([], []) = Inr (transformed_parameters, f0_multipliers)"
    and earlier:
      "apply_rule_functions fs ctx transformed_parameters remaining ([], [], 1, parameters) =
         Inr (preceding_parameters, following_parameters, f0_multiplier, parameters1)"
    and current:
      "g ctx transformed_parameters remaining preceding_parameters following_parameters
         parameters1 = Inr (preceding_params, following_params, multiplier, parameters2)"
    and later:
      "apply_rule_functions hs ctx transformed_parameters remaining
         (preceding_parameters @ preceding_params, following_params @ following_parameters,
          f0_multiplier * multiplier, parameters2) =
         Inr (preceding_all, following_all, f0_all, parameters3)"
  shows "\<exists>preceding_later following_later.
           preceding_all = preceding_parameters @ preceding_params @ preceding_later \<and>
           following_all = following_later @ following_params @ following_parameters \<and>
           apply_rule_functions (fs @ g # hs) ctx transformed_parameters remaining
             ([], [], 1, parameters) =
             Inr (preceding_all, following_all, f0_all, parameters3) \<and>
           applyRules (fs @ g # hs) ctx (before @ parameters # after) =
             applyRules_loop (fs @ g # hs) ctx (int (length (before @ parameters # after)) - 1)
               (int (length before) + 1) after
               (transformed_parameters @
                  (preceding_parameters @ preceding_params @ preceding_later) @ [parameters3] @
                  (following_later @ following_params @ following_parameters),
                f0_multipliers @
                  replicate (length preceding_all + 1 + length following_all) f0_all) \<and>
           (\<forall>out ms. applyRules (fs @ g # hs) ctx (before @ parameters # after) = Inr (out, ms) \<longrightarrow>
              (\<exists>rest. out = transformed_parameters @
                        preceding_parameters @ preceding_params @ preceding_later @
                        [parameters3] @
                        following_later @ following_params @ following_parameters @ rest))"
proof -
  let ?c0 = "int (length (before @ parameters # after)) - 1"
  let ?chain = "fs @ g # hs"
  from apply_rule_functions_extends [OF later] obtain preceding_later following_later where
    pre: "preceding_all = (preceding_parameters @ preceding_params) @ preceding_later"
    and post: "following_all = following_later @ (following_params @ following_parameters)"
    by blast
  have chain: "apply_rule_functions ?chain ctx transformed_parameters remaining
                 ([], [], 1, parameters) =
               Inr (preceding_all, following_all, f0_all, parameters3)"
    using earlier current later by (simp add: apply_rule_functions_append)
  let ?st = "(transformed_parameters @ preceding_all @ [parameters3] @ following_all,
              f0_multipliers @ replicate (length preceding_all + 1 + length following_all) f0_all)"
  have step: "applyRules_loop ?chain ctx ?c0 (int (length before)) (parameters # after)
                (transformed_parameters, f0_multipliers) =
              applyRules_loop ?chain ctx ?c0 (int (length before) + 1) after ?st"
    using chain by (simp add: remaining_def)
  have whole: "applyRules ?chain ctx (before @ parameters # after) =
               applyRules_loop ?chain ctx ?c0 (int (length before) + 1) after ?st"
    unfolding applyRules_def
    by (subst applyRules_loop_append) (simp only: processed sum.case add_0 step)
  have prefix: "\<exists>rest. out = transformed_parameters @ preceding_all @ [parameters3] @
                             following_all @ rest"
    if "applyRules ?chain ctx (before @ parameters # after) = Inr (out, ms)" for out ms
  proof -
    from that whole have "applyRules_loop ?chain ctx ?c0 (int (length before) + 1) after ?st =
                            Inr (out, ms)" by simp
    from applyRules_loop_prefix [OF this] show ?thesis by simp
  qed
  from pre post chain whole prefix show ?thesis
    by (intro exI [of _ preceding_later] exI [of _ following_later]) (simp add: pre post)
qed


lemma demo_rules_eval:
  "applyRules [demo_rule_1, demo_rule_2] demo_context [[PInt 0]] =
     Inr ([[PInt 11], [PInt 21], [PInt 0], [PInt 22], [PInt 12]], [1, 1, 1, 1, 1])"
  by (simp add: applyRules_def demo_rule_1_def demo_rule_2_def numeral_eq_Suc)

theorem applyRules_accumulates_witness:
  "applyRules_loop ([demo_rule_1] @ demo_rule_2 # []) demo_context
     (int (length ([[PInt 0]] @ [PInt 1] # [])) - 1) 0 [[PInt 0]] ([], []) =
     Inr ([[PInt 11], [PInt 21], [PInt 0], [PInt 22], [PInt 12]], [1, 1, 1, 1, 1]) \<and>
   apply_rule_functions [demo_rule_1] demo_context
     [[PInt 11], [PInt 21], [PInt 0], [PInt 22], [PInt 12]] 0 ([], [], 1, [PInt 1]) =
     Inr ([[PInt 11]], [[PInt 12]], 1, [PInt 1]) \<and>
   demo_rule_2 demo_context [[PInt 11], [PInt 21], [PInt 0], [PInt 22], [PInt 12]] 0
     [[PInt 11]] [[PInt 12]] [PInt 1] = Inr ([[PInt 21]], [[PInt 22]], 1, [PInt 1]) \<and>
   applyRules [demo_rule_1, demo_rule_2] demo_context [[PInt 0], [PInt 1]] =
     Inr ([[PInt 11], [PInt 21], [PInt 0], [PInt 22], [PInt 12],
           [PInt 11], [PInt 21], [PInt 1], [PInt 22], [PInt 12]],
          [1, 1, 1, 1, 1, 1, 1, 1, 1, 1])"
proof -
  let ?tr = "[[PInt 11], [PInt 21], [PInt 0], [PInt 22], [PInt 12]]"
  let ?remaining = "int (length ([[PInt 0]] @ [PInt 1] # [])) - 1 - int (length [[PInt 0 :: pynum]])"
  have a: "applyRules_loop ([demo_rule_1] @ demo_rule_2 # []) demo_context
             (int (length ([[PInt 0]] @ [PInt 1] # [])) - 1) 0 [[PInt 0]] ([], []) =
             Inr (?tr, [1, 1, 1, 1, 1])"
    by (simp add: demo_rule_1_def demo_rule_2_def numeral_eq_Suc)
  have b: "apply_rule_functions [demo_rule_1] demo_context ?tr ?remaining ([], [], 1, [PInt 1]) =
             Inr ([[PInt 11]], [[PInt 12]], 1, [PInt 1])"
    by (simp add: demo_rule_1_def)
  have c: "demo_rule_2 demo_context ?tr ?remaining [[PInt 11]] [[PInt 12]] [PInt 1] =
             Inr ([[PInt 21]], [[PInt 22]], 1, [PInt 1])"
    by (simp add: demo_rule_2_def)
  have d: "apply_rule_functions [] demo_context ?tr ?remaining
             ([[PInt 11]] @ [[PInt 21]], [[PInt 22]] @ [[PInt 12]], 1 * 1, [PInt 1]) =
             Inr ([[PInt 11], [PInt 21]], [[PInt 22], [PInt 12]], 1, [PInt 1])"
    by simp
  from applyRules_accumulates [where g = demo_rule_2 and fs = "[demo_rule_1]" and hs = "[]",
      OF a b c d] a b c
  show ?thesis by (auto simp add: numeral_eq_Suc)
qed

text \<open>
  The claim C4 as stated fails for the appended parameter-sets: with two rules that
  append \<open>[12]\<close> and then \<open>[22]\<close> to the parameter-set \<open>[0]\<close>, the later \<open>[22]\<close> stands
  directly after \<open>[0]\<close> and the earlier \<open>[12]\<close> after it, not the other way round.
\<close>

theorem applyRules_append_order_counterexample:
  "applyRules [demo_rule_1, demo_rule_2] demo_context [[PInt 0]] =
     Inr ([[PInt 11], [PInt 21], [PInt 0], [PInt 22], [PInt 12]], [1, 1, 1, 1, 1]) \<and>
   applyRules [demo_rule_1, demo_rule_2] demo_context [[PInt 0]] \<noteq>
     Inr ([[PInt 11], [PInt 21], [PInt 0], [PInt 12], [PInt 22]], [1, 1, 1, 1, 1])"
  by (simp add: demo_rules_eval)

section \<open>Properties of the parser\<close>

lemma extractSentence_loop_invalid:
  assumes "\<forall>t\<in>set good. WORD_REGEXP_match tbl t \<noteq> None \<and> \<not> ends_sentence tbl t"
    and "WORD_REGEXP_match tbl bad = None"
  shows "extractSentence_loop tbl n (good @ bad # rest) words q e =
           Inl (InvalidCharacter (length words + length good + 1) n)"
  using assms
proof (induction good arbitrary: words q e)
  case Nil
  then show ?case by simp
next
  case (Cons t good)
  from Cons.prems obtain g1 g2 g3 where m: "WORD_REGEXP_match tbl t = Some (g1, g2, g3)"
    by (cases "WORD_REGEXP_match tbl t") auto
  from Cons.prems m have nt: "c_period \<notin> set g3" "c_question \<notin> set g3" "c_exclamation \<notin> set g3"
    by (auto simp: ends_sentence_def)
  from Cons.prems have rest: "\<forall>t\<in>set good. WORD_REGEXP_match tbl t \<noteq> None \<and> \<not> ends_sentence tbl t"
    by simp
  show ?case
    using m nt Cons.IH [OF rest Cons.prems(2)] by (simp add: Let_def)
qed

lemma extractSentence_loop_complete:
  assumes "\<forall>t\<in>set good. WORD_REGEXP_match tbl t \<noteq> None \<and> \<not> ends_sentence tbl t"
    and "ends_sentence tbl final"
  shows "\<exists>sentence. extractSentence_loop tbl n (good @ final # rest) words q e =
           Inr (sentence, rest)"
  using assms
proof (induction good arbitrary: words q e)
  case Nil
  from Nil.prems(2) obtain g1 g2 g3 where m: "WORD_REGEXP_match tbl final = Some (g1, g2, g3)"
    and t: "c_period \<in> set g3 \<or> c_question \<in> set g3 \<or> c_exclamation \<in> set g3"
    by (auto simp: ends_sentence_def split: option.splits)
  then show ?case by (auto simp: Let_def)
next
  case (Cons t good)
  from Cons.prems obtain g1 g2 g3 where m: "WORD_REGEXP_match tbl t = Some (g1, g2, g3)"
    by (cases "WORD_REGEXP_match tbl t") auto
  from Cons.prems m have nt: "c_period \<notin> set g3" "c_question \<notin> set g3" "c_exclamation \<notin> set g3"
    by (auto simp: ends_sentence_def)
  from Cons.prems have rest: "\<forall>t\<in>set good. WORD_REGEXP_match tbl t \<noteq> None \<and> \<not> ends_sentence tbl t"
    by simp
  show ?case
    using m nt Cons.IH [OF rest Cons.prems(2)] by (simp add: Let_def)
qed

lemma takeWhile_stop:
  "\<not> P t \<Longrightarrow> takeWhile P (xs @ t # ys) = takeWhile P xs"
  by (simp add: takeWhile_append) (metis takeWhile_eq_all_conv)

lemma extract_sentences_invalid:
  assumes "\<forall>t\<in>set pre. WORD_REGEXP_match tbl t \<noteq> None"
    and "WORD_REGEXP_match tbl bad = None"
  shows "extract_sentences tbl (pre @ bad # rest) sentences =
           Inl (InvalidCharacter
                  (length (takeWhile (\<lambda>t. \<not> ends_sentence tbl t) (rev pre)) + 1)
                  (length sentences + length (filter (ends_sentence tbl) pre) + 1))"
  using assms(1)
proof (induction "length pre" arbitrary: pre sentences rule: less_induct)
  case less
  show ?case
  proof (cases "\<exists>t\<in>set pre. ends_sentence tbl t")
    case False
    then have good: "\<forall>t\<in>set pre. WORD_REGEXP_match tbl t \<noteq> None \<and> \<not> ends_sentence tbl t"
      using less.prems by blast
    from False have tw: "takeWhile (\<lambda>t. \<not> ends_sentence tbl t) (rev pre) = rev pre"
      by (simp add: takeWhile_eq_all_conv)
    from False have fl: "filter (ends_sentence tbl) pre = []"
      by (simp add: filter_empty_conv)
    show ?thesis
      by (subst extract_sentences.simps)
        (simp add: extractSentence_def extractSentence_loop_invalid [OF good assms(2)] tw fl)
  next
    case True
    from split_list_first_prop [OF True] obtain good final others where
      pre: "pre = good @ final # others" and final: "ends_sentence tbl final"
      and ng: "\<forall>t\<in>set good. \<not> ends_sentence tbl t"
      by blast
    from ng less.prems pre
    have good: "\<forall>t\<in>set good. WORD_REGEXP_match tbl t \<noteq> None \<and> \<not> ends_sentence tbl t"
      by simp
    from extractSentence_loop_complete [OF good final] obtain sentence where
      sn: "extractSentence_loop tbl (length sentences + 1) (good @ final # others @ bad # rest)
             [] False False = Inr (sentence, others @ bad # rest)"
      by blast
    have shorter: "length others < length pre" by (simp add: pre)
    have wf: "\<forall>t\<in>set others. WORD_REGEXP_match tbl t \<noteq> None" using less.prems pre by simp
    have tw: "takeWhile (\<lambda>t. \<not> ends_sentence tbl t) (rev pre) =
              takeWhile (\<lambda>t. \<not> ends_sentence tbl t) (rev others)"
      using final by (simp add: pre takeWhile_stop)
    have fl: "length (filter (ends_sentence tbl) pre) =
              Suc (length (filter (ends_sentence tbl) others))"
      using final ng by (simp add: pre filter_empty_conv)
    have "extract_sentences tbl (pre @ bad # rest) sentences =
          extract_sentences tbl (others @ bad # rest) (sentences @ [sentence])"
      using sn by (subst extract_sentences.simps) (simp add: pre extractSentence_def)
    also note less.hyps [OF shorter wf, of "sentences @ [sentence]"]
    finally show ?thesis by (simp add: tw fl)
  qed
qed

text \<open>
  Claim C9. When a token of a paragraph fails the token grammar and every token before
  it matches, the extraction of the sentences raises the error that names the word and
  the sentence of that token, both counted from 1: the word index is one more than the
  number of tokens after the last token that ends a sentence, the sentence index one more
  than the number of tokens that end a sentence. \<open>paragraphToSound\<close> raises the same
  error, so no list of sentences and no sound is produced for the paragraph.
\<close>

theorem malformed_token_error:
  assumes "split paragraph = pre @ bad # rest"
    and "\<forall>t\<in>set pre. WORD_REGEXP_match tbl t \<noteq> None"
    and "WORD_REGEXP_match tbl bad = None"
  shows "extract_sentences tbl (split paragraph) [] =
           Inl (InvalidCharacter
                  (length (takeWhile (\<lambda>t. \<not> ends_sentence tbl t) (rev pre)) + 1)
                  (length (filter (ends_sentence tbl) pre) + 1)) \<and>
         paragraphToSound tbl rule_functions turbo paragraph sy =
           Inl (InvalidCharacter
                  (length (takeWhile (\<lambda>t. \<not> ends_sentence tbl t) (rev pre)) + 1)
                  (length (filter (ends_sentence tbl) pre) + 1))"
proof -
  have "extract_sentences tbl (split paragraph) [] =
           Inl (InvalidCharacter
                  (length (takeWhile (\<lambda>t. \<not> ends_sentence tbl t) (rev pre)) + 1)
                  (length (filter (ends_sentence tbl) pre) + 1))"
    unfolding assms(1) using extract_sentences_invalid [OF assms(2,3), of rest "[]"] by simp
  then show ?thesis by (simp add: paragraphToSound_def)
qed


subsection \<open>The concrete paragraphs\<close>

lemmas char_defs = c_star_def c_quote_def c_apostrophe_def c_comma_def c_period_def
  c_question_def c_exclamation_def c_minus_def c_plus_def c_less_def c_greater_def

lemmas regexp_defs = WORD_REGEXP_match_def opt_marker_def opt_terminal_def opt_alternatives_def
  cluster_def ipa_char_def ext_char_def

lemma demo_table_chars:
  "demo_table [97] \<noteq> None" "demo_table [46] = None" "demo_table [60] = None"
  by (simp_all add: demo_table_def u_a_def u_n_def u_t_def u_h_def u_glottal_stop_def)

lemma demo_split_malformed: "split demo_malformed_paragraph = [[97, 46], [97], [46]]"
  by (simp add: split_def demo_malformed_paragraph_def isspace_def)

lemma demo_match_a_period: "WORD_REGEXP_match demo_ipa [97, 46] = Some ([], [97], [46])"
  by (simp add: regexp_defs char_defs demo_ipa_simps demo_table_chars)

lemma demo_match_a: "WORD_REGEXP_match demo_ipa [97] = Some ([], [97], [])"
  by (simp add: regexp_defs char_defs demo_ipa_simps demo_table_chars)

lemma demo_match_period: "WORD_REGEXP_match demo_ipa [46] = None"
  by (simp add: regexp_defs char_defs demo_ipa_simps demo_table_chars)

lemma demo_ends_sentence:
  "ends_sentence demo_ipa [97, 46]" "\<not> ends_sentence demo_ipa [97]"
  by (simp_all add: ends_sentence_def demo_match_a_period demo_match_a char_defs)

theorem malformed_token_error_witness:
  "split demo_malformed_paragraph = [[97, 46], [97]] @ [46] # [] \<and>
   WORD_REGEXP_match demo_ipa [97, 46] \<noteq> None \<and>
   WORD_REGEXP_match demo_ipa [97] \<noteq> None \<and>
   WORD_REGEXP_match demo_ipa [46] = None \<and>
   extract_sentences demo_ipa (split demo_malformed_paragraph) [] = Inl (InvalidCharacter 2 2) \<and>
   paragraphToSound demo_ipa [] False demo_malformed_paragraph demo_synth =
     Inl (InvalidCharacter 2 2)"
proof -
  have s: "split demo_malformed_paragraph = [[97, 46], [97]] @ [46] # []"
    by (simp add: demo_split_malformed)
  have g: "\<forall>t\<in>set [[97, 46], [97]]. WORD_REGEXP_match demo_ipa t \<noteq> None"
    by (simp add: demo_match_a_period demo_match_a)
  from malformed_token_error [OF s g demo_match_period, of "[]" False demo_synth] s g
    demo_match_period
  show ?thesis by (simp add: demo_ends_sentence)
qed

section \<open>Properties of the paragraph loop\<close>

lemma paragraphToSound_loop_segments:
  assumes "paragraphToSound_loop tbl rule_functions turbo silent n i sentences sy =
             Inr (segments, sy')"
  shows "length segments = 2 * length sentences \<and>
         (\<forall>k<length sentences.
            segments ! (2 * k + 1) = silent \<and>
            (\<exists>s1 s2. sentenceToSound tbl rule_functions turbo (sentences ! k)
                        (int (i + k) + 1) (int n - int (i + k) - 1) s1 =
                      Inr (segments ! (2 * k), s2)))"
  using assms
proof (induction sentences arbitrary: i sy segments)
  case Nil
  then show ?case by simp
next
  case (Cons sentence sentences)
  from Cons.prems obtain samples sy1 others where
    first: "sentenceToSound tbl rule_functions turbo sentence (int i + 1) (int n - int i - 1) sy =
              Inr (samples, sy1)"
    and rest: "paragraphToSound_loop tbl rule_functions turbo silent n (i + 1) sentences sy1 =
                 Inr (others, sy')"
    and segs: "segments = samples # silent # others"
    by (auto split: sum.splits prod.splits)
  note ih = Cons.IH [OF rest]
  have "segments ! (2 * k + 1) = silent \<and>
        (\<exists>s1 s2. sentenceToSound tbl rule_functions turbo ((sentence # sentences) ! k)
                    (int (i + k) + 1) (int n - int (i + k) - 1) s1 =
                  Inr (segments ! (2 * k), s2))"
    if k: "k < length (sentence # sentences)" for k
  proof (cases k)
    case 0
    with first segs show ?thesis by auto
  next
    case (Suc j)
    with k have j: "j < length sentences" by simp
    from ih j have "others ! (2 * j + 1) = silent"
      and "\<exists>s1 s2. sentenceToSound tbl rule_functions turbo (sentences ! j)
                    (int (i + 1 + j) + 1) (int n - int (i + 1 + j) - 1) s1 =
                  Inr (others ! (2 * j), s2)"
      by blast+
    then show ?thesis by (simp add: Suc segs add.commute add.left_commute)
  qed
  with ih segs show ?case by simp
qed

text \<open>
  Claim C10. When a paragraph parses into the sentences \<open>sentences\<close> and
  \<open>paragraphToSound\<close> returns, the result has exactly twice as many segments as there
  are sentences: the segment \<open>2 * k\<close> is the sound of the sentence \<open>k\<close> (synthesised at
  the position \<open>k + 1\<close>, with the remaining count) and the segment \<open>2 * k + 1\<close> is 5000
  zero samples. A half second of silence follows every sentence, the last one included.
\<close>

theorem paragraphToSound_segments:
  assumes parsed: "extract_sentences tbl (split paragraph) [] = Inr sentences"
    and ret: "paragraphToSound tbl rule_functions turbo paragraph sy = Inr (segments, sy')"
  shows "length segments = 2 * length sentences \<and>
         (\<forall>k<length sentences.
            segments ! (2 * k + 1) = replicate 5000 0 \<and>
            (\<exists>s1 s2. sentenceToSound tbl rule_functions turbo (sentences ! k)
                        (int k + 1) (int (length sentences) - int k - 1) s1 =
                      Inr (segments ! (2 * k), s2))) \<and>
         (sentences \<noteq> [] \<longrightarrow> last segments = replicate 5000 0)"
proof -
  have silence: "generateSilence sy 500 = (replicate 5000 0, sy\<lparr>noise := 0\<rparr>)"
    by (simp add: generateSilence_def FREQUENCY_def)
  from ret parsed silence
  have loop: "paragraphToSound_loop tbl rule_functions turbo (replicate 5000 0)
                (length sentences) 0 sentences (sy\<lparr>noise := 0\<rparr>) = Inr (segments, sy')"
    by (simp add: paragraphToSound_def Let_def)
  note segs = paragraphToSound_loop_segments [OF loop]
  have "last segments = replicate 5000 0" if "sentences \<noteq> []"
  proof -
    from that have k: "length sentences - 1 < length sentences" by (cases sentences) auto
    from segs have len: "length segments = 2 * length sentences" by blast
    from that len have ne: "segments \<noteq> []" by auto
    from that len have "length segments - 1 = 2 * (length sentences - 1) + 1"
      by (cases sentences) auto
    with last_conv_nth [OF ne]
    have "last segments = segments ! (2 * (length sentences - 1) + 1)" by simp
    with segs k show ?thesis by metis
  qed
  with segs show ?thesis by simp
qed


lemma demo_split: "split demo_paragraph = [[97, 60, 60, 60, 60, 60, 60, 46]]"
  by (simp add: split_def demo_paragraph_def isspace_def)

lemma demo_match_word:
  "WORD_REGEXP_match demo_ipa [97, 60, 60, 60, 60, 60, 60, 46] =
     Some ([], [97, 60, 60, 60, 60, 60, 60], [46])"
  by (simp add: regexp_defs char_defs demo_ipa_simps demo_table_chars)

lemma demo_sentences:
  "extract_sentences demo_ipa (split demo_paragraph) [] =
     Inr [([([97, 60, 60, 60, 60, 60, 60], [])], [])]"
  by (simp add: demo_split extract_sentences.simps extractSentence_def demo_match_word
      char_defs)

lemma demo_frame_values: "demo_values 1 @ [PInt 1] = demo_frame"
  by (simp add: demo_values_def demo_frame_def)

lemma demo_phoneme:
  assumes "ctx_ipa_character ctx = u_a" and "ctx_preceding_phonemes ctx = []"
    and "ctx_following_phonemes ctx = []" and "ctx_previous_words ctx = []"
  shows "phonemeToSound demo_ipa [demo_rule_pitch] False ctx (1 / 64) 1 demo_synth =
           Inr ([- 32768, 32767, 32767, - 32768, - 32768, 32767, 32767, - 32768, - 32768, 32767],
                demo_synth\<lparr>drawn := 12\<rparr>)"
proof -
  have "py_int (PInt 100 * PFloat (1 / 64)) = 1"
    by (simp add: float_to_int_def)
  then have d: "demo_values 1 @ [PInt (py_int (PInt 100 * PFloat (1 / 64)))] = demo_frame"
    by (simp only: demo_frame_values)
  show ?thesis
    using assms
    by (simp add: phonemeToSound_def demo_ipa_simps demo_table_lookup d Let_def
        nasalizeVowel_def bridgeWords_def shapeContours_def applyRules_def
        demo_rule_pitch_def demo_synthesize_eval del: times_pynum.simps)
qed


lemma demo_collapse:
  "collapse_extensions [[60], [60], [60], [60], [60], [60]] [97] 1 1 = [([97], 1 / 64, 1)]"
  by (simp add: char_defs)

lemma demo_word:
  "wordToSound demo_ipa [demo_rule_pitch] False ([97, 60, 60, 60, 60, 60, 60], []) 1 0 [] []
     1 0 False False demo_synth =
   Inr ([- 32768, 32767, 32767, - 32768, - 32768, 32767, 32767, - 32768, - 32768, 32767],
        demo_synth\<lparr>drawn := 12\<rparr>)"
proof -
  have a: "[97] = u_a" by (simp add: u_a_def)
  show ?thesis
    by (simp add: wordToSound_def Let_def demo_ipa_simps demo_collapse char_defs
        demo_phoneme a)
qed

lemma demo_sentence:
  "sentenceToSound demo_ipa [demo_rule_pitch] False
     ([([97, 60, 60, 60, 60, 60, 60], [])], []) 1 0 demo_synth =
   Inr ([- 32768, 32767, 32767, - 32768, - 32768, 32767, 32767, - 32768, - 32768, 32767],
        demo_synth\<lparr>drawn := 12\<rparr>)"
  by (simp add: sentenceToSound_def Let_def demo_word)

lemma demo_paragraph_eval:
  "paragraphToSound demo_ipa [demo_rule_pitch] False demo_paragraph demo_synth =
     Inr ([[- 32768, 32767, 32767, - 32768, - 32768, 32767, 32767, - 32768, - 32768, 32767],
           replicate 5000 0],
          demo_synth\<lparr>drawn := 12\<rparr>)"
proof -
  have silence: "generateSilence demo_synth 500 = (replicate 5000 0, demo_synth)"
    by (simp add: generateSilence_def FREQUENCY_def demo_synth_def)
  show ?thesis
    by (simp add: paragraphToSound_def Let_def demo_sentences silence demo_sentence)
qed

theorem paragraphToSound_segments_witness:
  "extract_sentences demo_ipa (split demo_paragraph) [] =
     Inr [([([97, 60, 60, 60, 60, 60, 60], [])], [])] \<and>
   paragraphToSound demo_ipa [demo_rule_pitch] False demo_paragraph demo_synth =
     Inr ([[- 32768, 32767, 32767, - 32768, - 32768, 32767, 32767, - 32768, - 32768, 32767],
           replicate 5000 0],
          demo_synth\<lparr>drawn := 12\<rparr>) \<and>
   length [[- 32768, 32767, 32767, - 32768, - 32768, 32767, 32767, - 32768, - 32768, 32767],
           replicate 5000 (0::int)] =
     2 * length [([([97, 60, 60, 60, 60, 60, 60 :: nat], [] :: word_markup list)],
                  [] :: sentence_markup list)] \<and>
   last [[- 32768, 32767, 32767, - 32768, - 32768, 32767, 32767, - 32768, - 32768, 32767],
         replicate 5000 (0::int)] = replicate 5000 0"
  using paragraphToSound_segments [OF demo_sentences demo_paragraph_eval]
    demo_sentences demo_paragraph_eval
  by simp

end
